theory Spec2Isabelle
  imports Main
begin

section \<open>Protocol messages\<close>

text \<open>
  The messages of \<^verbatim>\<open>google.ai.generativelanguage\<close> (imported as \<^verbatim>\<open>glm\<close>) that
  \<^verbatim>\<open>generation_types.py\<close> reads and builds, with the fields it touches. Protocol enums
  (harm category, harm probability, finish reason, block reason) are integers.
\<close>

text \<open>
  \<^verbatim>\<open>glm.Part\<close> holds a one-of: a text, a blob, or nothing. Reading \<^verbatim>\<open>part.text\<close> of a
  part that is not a text gives the empty string.
\<close>

datatype part = TextPart string | InlineData string string | NoData

fun part_text :: "part \<Rightarrow> string" where
  "part_text (TextPart s) = s"
| "part_text (InlineData mime_type bytes) = []"
| "part_text NoData = []"

record content =
  role :: string
  parts :: "part list"

record safety_rating =
  category :: int
  probability :: int
  blocked :: bool

record citation_source =
  start_index :: int
  end_index :: int
  uri :: string
  license :: string

record citation_metadata =
  citation_sources :: "citation_source list"

record candidate =
  index :: int
  cand_content :: content
  finish_reason :: int
  safety_ratings :: "safety_rating list"
  cand_citation_metadata :: citation_metadata

record prompt_feedback =
  block_reason :: int
  feedback_safety_ratings :: "safety_rating list"

text \<open>\<^verbatim>\<open>glm.GenerateContentResponse\<close>: one partial message of a stream.\<close>

record chunk =
  candidates :: "candidate list"
  chunk_prompt_feedback :: prompt_feedback

section \<open>Exceptions\<close>

text \<open>
  Every exception the module raises or lets through. \<open>UpstreamError\<close> stands for any
  other exception of a class under \<^verbatim>\<open>Exception\<close> that a producer raises, told apart by
  its message. \<^verbatim>\<open>KeyboardInterrupt\<close>, \<^verbatim>\<open>SystemExit\<close> and \<^verbatim>\<open>GeneratorExit\<close> are the
  exceptions of Python that are not under \<^verbatim>\<open>Exception\<close>.
\<close>

datatype exc =
    StopIteration
  | IndexError
  | AssertionError
  | TypeError
  | RuntimeError
  | ValueError string
  | IncompleteIterationError
  | BlockedPromptException chunk
  | UpstreamError string
  | KeyboardInterrupt
  | SystemExit
  | GeneratorExit

text \<open>\<^verbatim>\<open>isinstance(e, Exception)\<close>: what the clause \<^verbatim>\<open>except Exception\<close> catches.\<close>

fun is_Exception :: "exc \<Rightarrow> bool" where
  "is_Exception KeyboardInterrupt = False"
| "is_Exception SystemExit = False"
| "is_Exception GeneratorExit = False"
| "is_Exception e = True"

section \<open>Dictionaries in insertion order\<close>

text \<open>
  A Python \<^verbatim>\<open>dict\<close> iterates in the order its keys were first inserted; storing under
  a key it has keeps the key's place. \<open>dict_set\<close> is \<^verbatim>\<open>d[k] = v\<close>,
  \<open>dict_append\<close> is \<^verbatim>\<open>d[k].append(v)\<close> on a \<^verbatim>\<open>defaultdict(list)\<close>.
\<close>

fun dict_set :: "('k \<times> 'v) list \<Rightarrow> 'k \<Rightarrow> 'v \<Rightarrow> ('k \<times> 'v) list" where
  "dict_set [] k v = [(k, v)]"
| "dict_set ((k', v') # d) k v = (if k' = k then (k, v) # d else (k', v') # dict_set d k v)"

fun dict_append :: "('k \<times> 'v list) list \<Rightarrow> 'k \<Rightarrow> 'v \<Rightarrow> ('k \<times> 'v list) list" where
  "dict_append [] k v = [(k, [v])]"
| "dict_append ((k', vs) # d) k v =
     (if k' = k then (k', vs @ [v]) # d else (k', vs) # dict_append d k v)"

section \<open>Merging partial messages\<close>

definition join_citation_metadatas :: "citation_metadata list \<Rightarrow> citation_metadata" where
  "join_citation_metadatas citation_metadatas =
     \<lparr>citation_sources = concat (map citation_sources citation_metadatas)\<rparr>"

text \<open>
  The two dictionaries of \<^verbatim>\<open>_join_safety_ratings_lists\<close> are filled by one loop over
  every rating of every list.
\<close>

definition ratings_of :: "safety_rating list \<Rightarrow> (int \<times> int) list" where
  "ratings_of rs = foldl (\<lambda>ratings rating. dict_set ratings (category rating) (probability rating)) [] rs"

definition blocked_of :: "safety_rating list \<Rightarrow> (int \<times> bool list) list" where
  "blocked_of rs = foldl (\<lambda>blockd rating. dict_append blockd (category rating) (blocked rating)) [] rs"

definition join_safety_ratings_lists :: "safety_rating list list \<Rightarrow> safety_rating list" where
  "join_safety_ratings_lists safety_ratings_lists =
     (let ratings = ratings_of (concat safety_ratings_lists);
          blockd = map (\<lambda>(c, bs). (c, list_ex id bs)) (blocked_of (concat safety_ratings_lists))
      in map (\<lambda>((c, p), b). \<lparr>category = c, probability = p, blocked = b\<rparr>)
           (zip ratings (map snd blockd)))"

text \<open>
  The loop of \<^verbatim>\<open>_join_contents\<close> over the parts after the first; \<open>merged_parts\<close> is
  never empty there. Assigning \<^verbatim>\<open>text\<close> on the copy of the last merged part selects
  the text of its one-of.
\<close>

fun merge_parts :: "part list \<Rightarrow> part list \<Rightarrow> part list" where
  "merge_parts merged_parts [] = merged_parts"
| "merge_parts merged_parts (p # ps) =
     (if part_text (last merged_parts) = [] then merge_parts (merged_parts @ [p]) ps
      else if part_text p = [] then merge_parts (merged_parts @ [p]) ps
      else merge_parts
             (butlast merged_parts @ [TextPart (part_text (last merged_parts) @ part_text p)]) ps)"

definition join_contents :: "content list \<Rightarrow> exc + content" where
  "join_contents contents =
     (case contents of
        [] \<Rightarrow> Inl IndexError
      | c0 # _ \<Rightarrow>
          if \<not> list_all (\<lambda>c. role c = role c0) contents then Inl AssertionError
          else (case concat (map parts contents) of
                  [] \<Rightarrow> Inl IndexError
                | p # ps \<Rightarrow> Inr \<lparr>role = role c0, parts = merge_parts [p] ps\<rparr>))"

definition join_candidates :: "candidate list \<Rightarrow> exc + candidate" where
  "join_candidates cands =
     (case cands of
        [] \<Rightarrow> Inl IndexError
      | c0 # _ \<Rightarrow>
          if \<not> list_all (\<lambda>c. index c = index c0) cands then Inl AssertionError
          else (case join_contents (map cand_content cands) of
                  Inl e \<Rightarrow> Inl e
                | Inr joined \<Rightarrow>
                    Inr \<lparr>index = index c0,
                         cand_content = joined,
                         finish_reason = finish_reason (last cands),
                         safety_ratings = join_safety_ratings_lists (map safety_ratings cands),
                         cand_citation_metadata =
                           join_citation_metadatas (map cand_citation_metadata cands)\<rparr>))"

text \<open>The loop that joins each group in turn; the first exception ends it.\<close>

fun join_groups :: "candidate list list \<Rightarrow> exc + candidate list" where
  "join_groups [] = Inr []"
| "join_groups (g # gs) =
     (case join_candidates g of
        Inl e \<Rightarrow> Inl e
      | Inr c \<Rightarrow> (case join_groups gs of Inl e \<Rightarrow> Inl e | Inr cs \<Rightarrow> Inr (c # cs)))"

definition group_by_index :: "candidate list \<Rightarrow> (int \<times> candidate list) list" where
  "group_by_index cs = foldl (\<lambda>d c. dict_append d (index c) c) [] cs"

definition join_candidate_lists :: "candidate list list \<Rightarrow> exc + candidate list" where
  "join_candidate_lists candidate_lists =
     join_groups (map snd (sort_key fst (group_by_index (concat candidate_lists))))"

definition join_prompt_feedbacks :: "prompt_feedback list \<Rightarrow> exc + prompt_feedback" where
  "join_prompt_feedbacks prompt_feedbacks =
     (case prompt_feedbacks of [] \<Rightarrow> Inl StopIteration | f # _ \<Rightarrow> Inr f)"

definition join_chunks :: "chunk list \<Rightarrow> exc + chunk" where
  "join_chunks chunks =
     (case join_candidate_lists (map candidates chunks) of
        Inl e \<Rightarrow> Inl e
      | Inr cs \<Rightarrow>
          (case join_prompt_feedbacks (map chunk_prompt_feedback chunks) of
             Inl e \<Rightarrow> Inl e
           | Inr f \<Rightarrow> Inr \<lparr>candidates = cs, chunk_prompt_feedback = f\<rparr>))"

section \<open>The streaming response\<close>

text \<open>
  A producer of partial messages: what each call of \<^verbatim>\<open>next\<close> will give, an item
  (\<open>Inr\<close>) or an exception (\<open>Inl\<close>), and how many calls were made. Once the list
  is used up every call raises \<^verbatim>\<open>StopIteration\<close>.
\<close>

record producer =
  pending :: "(exc + chunk) list"
  pulled :: nat

definition next_item :: "producer \<Rightarrow> (exc + chunk) \<times> producer" where
  "next_item it =
     (case pending it of
        [] \<Rightarrow> (Inl StopIteration, it\<lparr>pulled := pulled it + 1\<rparr>)
      | x # xs \<Rightarrow> (x, \<lparr>pending = xs, pulled = pulled it + 1\<rparr>))"

text \<open>The fields of \<^verbatim>\<open>BaseGenerateContentResponse\<close>; \<open>r_iterator\<close> is \<open>None\<close> for \<^verbatim>\<open>None\<close>.\<close>

record response =
  r_done :: bool
  r_iterator :: "producer option"
  r_result :: chunk
  r_chunks :: "chunk list"
  r_error :: "exc option"

definition init :: "bool \<Rightarrow> producer option \<Rightarrow> chunk \<Rightarrow> chunk list \<Rightarrow> response" where
  "init dn iterator result chunks =
     \<lparr>r_done = dn, r_iterator = iterator, r_result = result, r_chunks = chunks,
      r_error = (if block_reason (chunk_prompt_feedback result) \<noteq> 0
                 then Some (BlockedPromptException result) else None)\<rparr>"

definition from_iterator :: "producer \<Rightarrow> exc + response" where
  "from_iterator iterator =
     (case next_item iterator of
        (Inl e, it') \<Rightarrow> Inl e
      | (Inr response, it') \<Rightarrow> Inr (init False (Some it') response [response]))"

definition from_response :: "chunk \<Rightarrow> response" where
  "from_response response = init True None response [response]"

text \<open>\<^verbatim>\<open>next(self._iterator)\<close>: on \<^verbatim>\<open>None\<close> it raises \<^verbatim>\<open>TypeError\<close>.\<close>

definition pull :: "response \<Rightarrow> (exc + chunk) \<times> response" where
  "pull s =
     (case r_iterator s of
        None \<Rightarrow> (Inl TypeError, s)
      | Some it \<Rightarrow> (case next_item it of (x, it') \<Rightarrow> (x, s\<lparr>r_iterator := Some it'\<rparr>)))"

text \<open>
  The look-ahead of \<^verbatim>\<open>__iter__\<close>, its \<^verbatim>\<open>try\<close> with the \<^verbatim>\<open>except\<close> and \<^verbatim>\<open>else\<close>
  clauses. \<^verbatim>\<open>StopIteration\<close> from the pull marks the response done; any other exception
  under \<^verbatim>\<open>Exception\<close> is kept in the response, which is marked done as well. An
  exception of the pull that neither clause catches, and an exception of the merge, raised
  in the \<^verbatim>\<open>else\<close> clause after the item was appended, leave the generator
  (\<open>Some e\<close>).
\<close>

definition lookahead :: "response \<Rightarrow> exc option \<times> response" where
  "lookahead s =
     (case pull s of
        (Inl e, s') \<Rightarrow>
          if e = StopIteration then (None, s'\<lparr>r_done := True\<rparr>)
          else if is_Exception e then (None, s'\<lparr>r_error := Some e, r_done := True\<rparr>)
          else (Some e, s')
      | (Inr item, s') \<Rightarrow>
          (case join_chunks [r_result s', item] of
             Inl e \<Rightarrow> (Some e, s'\<lparr>r_chunks := r_chunks s' @ [item]\<rparr>)
           | Inr joined \<Rightarrow> (None, s'\<lparr>r_chunks := r_chunks s' @ [item], r_result := joined\<rparr>)))"

text \<open>\<^verbatim>\<open>item = self._chunks[n]\<close> and the \<^verbatim>\<open>yield\<close> of its wrapping.\<close>

definition yield_item :: "nat \<Rightarrow> response \<Rightarrow> (exc option + response) \<times> response" where
  "yield_item n s =
     (if n < length (r_chunks s) then (Inr (from_response (r_chunks s ! n)), s)
      else (Inl (Some IndexError), s))"

text \<open>
  One turn of the loop \<^verbatim>\<open>for n in itertools.count()\<close> of \<^verbatim>\<open>__iter__\<close>, from its top to
  its \<^verbatim>\<open>yield\<close>: \<open>Inr\<close> is the item yielded, \<open>Inl None\<close> the \<^verbatim>\<open>return\<close>, and
  \<open>Inl (Some e)\<close> an exception that leaves the generator.
\<close>

definition iter_step :: "nat \<Rightarrow> response \<Rightarrow> (exc option + response) \<times> response" where
  "iter_step n s =
     (case r_error s of
        Some e \<Rightarrow> (Inl (Some e), s)
      | None \<Rightarrow>
          if int n \<ge> int (length (r_chunks s)) - 1 then
            if r_done s then (Inl None, s)
            else (case lookahead s of
                    (Some e, s') \<Rightarrow> (Inl (Some e), s')
                  | (None, s') \<Rightarrow> yield_item n s')
          else yield_item n s)"

text \<open>The size of what is left to do, for the termination of the loop.\<close>

definition work_left :: "nat \<Rightarrow> response \<Rightarrow> nat" where
  "work_left n s =
     (case r_iterator s of None \<Rightarrow> 0 | Some it \<Rightarrow> length (pending it))
     + (if r_done s then 0 else 1)
     + (length (r_chunks s) + 1 - n)"

text \<open>
  The loop run by a caller that takes every item: the items yielded, how the generator
  ended (\<open>None\<close>: it returned) and the response it leaves.
\<close>

function iter_loop :: "nat \<Rightarrow> response \<Rightarrow> response list \<times> exc option \<times> response" where
  "iter_loop n s =
     (case iter_step n s of
        (Inl ending, s') \<Rightarrow> ([], ending, s')
      | (Inr item, s') \<Rightarrow>
          (case iter_loop (Suc n) s' of (items, ending, s'') \<Rightarrow> (item # items, ending, s'')))"
  by pat_completeness auto

termination iter_loop
proof (relation "measure (\<lambda>(n, s). work_left n s)")
  show "wf (measure (\<lambda>(n, s). work_left n s))" by simp
next
  fix n s x s' item
  assume "(x, s') = iter_step n s" and "x = Inr item"
  then have "iter_step n s = (Inr item, s')" by simp
  then have "work_left (Suc n) s' < work_left n s"
    by (auto simp: iter_step_def yield_item_def lookahead_def pull_def next_item_def
        work_left_def split: option.splits if_splits prod.splits sum.splits list.splits)
  then show "((Suc n, s'), (n, s)) \<in> measure (\<lambda>(n, s). work_left n s)" by simp
qed

declare iter_loop.simps [simp del]

text \<open>
  \<^verbatim>\<open>__iter__\<close>, run by a caller that takes every item. A \<^verbatim>\<open>StopIteration\<close> raised
  inside a generator leaves it as a \<^verbatim>\<open>RuntimeError\<close>.
\<close>

definition iter :: "response \<Rightarrow> response list \<times> exc option \<times> response" where
  "iter s =
     (if r_done s then (map from_response (r_chunks s), None, s)
      else if length (r_chunks s) = 0 then
        (case pull s of
           (Inl e, s') \<Rightarrow> ([], Some (if e = StopIteration then RuntimeError else e), s')
         | (Inr item, s') \<Rightarrow> iter_loop 0 (s'\<lparr>r_chunks := r_chunks s' @ [item]\<rparr>))
      else iter_loop 0 s)"

definition resolve :: "response \<Rightarrow> exc option \<times> response" where
  "resolve s =
     (if r_done s then (None, s)
      else (case iter s of (items, ending, s') \<Rightarrow> (ending, s')))"

subsection \<open>The accessors\<close>

definition candidates_of :: "response \<Rightarrow> exc + candidate list" where
  "candidates_of s =
     (if \<not> r_done s then Inl IncompleteIterationError else Inr (candidates (r_result s)))"

definition parts_none_message :: string where
  "parts_none_message =
     ''The `response.parts` quick accessor only works for a single candidate, but none were returned. Check the `response.prompt_feedback` to see if the prompt was blocked.''"

definition parts_many_message :: string where
  "parts_many_message =
     ''The `response.parts` quick accessor only works with a single candidate. With multiple candidates use result.candidates[index].text''"

definition parts_of :: "response \<Rightarrow> exc + part list" where
  "parts_of s =
     (case candidates_of s of
        Inl e \<Rightarrow> Inl e
      | Inr cands \<Rightarrow>
          if cands = [] then Inl (ValueError parts_none_message)
          else if length cands > 1 then Inl (ValueError parts_many_message)
          else Inr (parts (cand_content (cands ! 0))))"

definition prompt_feedback_of :: "response \<Rightarrow> prompt_feedback" where
  "prompt_feedback_of s = chunk_prompt_feedback (r_result s)"

section \<open>Notions for the statements\<close>

text \<open>
  The result a response holds after \<^verbatim>\<open>__iter__\<close> has pulled the items in turn, each
  pull making \<^verbatim>\<open>self._result = _join_chunks([self._result, item])\<close>; an exception of
  the merge ends it.
\<close>

fun accumulate :: "chunk \<Rightarrow> chunk list \<Rightarrow> exc + chunk" where
  "accumulate result [] = Inr result"
| "accumulate result (item # items) =
     (case join_chunks [result, item] of
        Inl e \<Rightarrow> Inl e
      | Inr joined \<Rightarrow> accumulate joined items)"

text \<open>
  The order in which a dictionary holds its keys after they were stored in the order
  \<open>ks\<close>: each key once, at its first place.
\<close>

definition key_order :: "'k list \<Rightarrow> 'k list" where
  "key_order ks = rev (remdups (rev ks))"

text \<open>
  A message of one candidate, with index 0, whose content has the role \<open>r\<close> and the one
  text part \<open>t\<close>, and with no block reason: the shape of a chunk of streamed text.
\<close>

definition text_chunk :: "string \<Rightarrow> string \<Rightarrow> chunk" where
  "text_chunk r t =
     \<lparr>candidates =
        [\<lparr>index = 0, cand_content = \<lparr>role = r, parts = [TextPart t]\<rparr>, finish_reason = 0,
          safety_ratings = [], cand_citation_metadata = \<lparr>citation_sources = []\<rparr>\<rparr>],
      chunk_prompt_feedback = \<lparr>block_reason = 0, feedback_safety_ratings = []\<rparr>\<rparr>"

text \<open>The same with any parts \<open>ps\<close> as the content of the candidate.\<close>

definition parts_chunk :: "string \<Rightarrow> part list \<Rightarrow> chunk" where
  "parts_chunk r ps =
     \<lparr>candidates =
        [\<lparr>index = 0, cand_content = \<lparr>role = r, parts = ps\<rparr>, finish_reason = 0,
          safety_ratings = [], cand_citation_metadata = \<lparr>citation_sources = []\<rparr>\<rparr>],
      chunk_prompt_feedback = \<lparr>block_reason = 0, feedback_safety_ratings = []\<rparr>\<rparr>"

section \<open>Properties of the merge\<close>

subsection \<open>The loop over the parts\<close>

lemma merge_parts_nonempty: "ms \<noteq> [] \<Longrightarrow> merge_parts ms ps \<noteq> []"
  by (induction ps arbitrary: ms) auto

lemma merge_parts_prefix: "ms \<noteq> [] \<Longrightarrow> merge_parts (xs @ ms) ps = xs @ merge_parts ms ps"
  by (induction ps arbitrary: ms) (auto simp: butlast_append)

lemma merge_parts_append: "merge_parts ms (ps @ qs) = merge_parts (merge_parts ms ps) qs"
  by (induction ps arbitrary: ms) auto

lemma merge_parts_length: "ms \<noteq> [] \<Longrightarrow> length (merge_parts ms ps) \<le> length ms + length ps"
proof (induction ps arbitrary: ms)
  case Nil
  then show ?case by simp
next
  case (Cons p ps)
  have "length (merge_parts (ms @ [p]) ps) \<le> length (ms @ [p]) + length ps"
    by (rule Cons.IH) simp
  moreover have "length (merge_parts (butlast ms @ [TextPart (part_text (last ms) @ part_text p)]) ps)
      \<le> length (butlast ms @ [TextPart (part_text (last ms) @ part_text p)]) + length ps"
    by (rule Cons.IH) simp
  ultimately show ?case using Cons.prems by auto
qed

lemma merge_parts_unchanged:
  "ms \<noteq> [] \<Longrightarrow>
   merge_parts ms ps = ms @ ps \<longleftrightarrow>
   successively (\<lambda>a b. part_text a = [] \<or> part_text b = []) (last ms # ps)"
proof (induction ps arbitrary: ms)
  case Nil
  then show ?case by simp
next
  case (Cons p ps)
  show ?case
  proof (cases "part_text (last ms) = [] \<or> part_text p = []")
    case True
    have "merge_parts (ms @ [p]) ps = (ms @ [p]) @ ps \<longleftrightarrow>
        successively (\<lambda>a b. part_text a = [] \<or> part_text b = []) (last (ms @ [p]) # ps)"
      by (rule Cons.IH) simp
    with True show ?thesis by auto
  next
    case False
    have "length (merge_parts (butlast ms @ [TextPart (part_text (last ms) @ part_text p)]) ps)
      \<le> length (butlast ms @ [TextPart (part_text (last ms) @ part_text p)]) + length ps"
      by (rule merge_parts_length) simp
    then have "length (merge_parts ms (p # ps)) < length (ms @ p # ps)"
      using False Cons.prems by auto
    then have "merge_parts ms (p # ps) \<noteq> ms @ p # ps" by (metis nat_neq_iff)
    with False show ?thesis by auto
  qed
qed

lemma join_contents_parts:
  "join_contents cs = Inr c \<Longrightarrow>
   \<exists>p ps. concat (map parts cs) = p # ps \<and> parts c = merge_parts [p] ps"
  by (auto simp: join_contents_def split: list.splits if_splits)

text \<open>
  C10: in \<^verbatim>\<open>_join_contents\<close> a text part holding the empty string is a boundary like a
  part that is no text. When the first content ends in an empty text part and the second
  begins with a text part, the two stay two parts: the merged parts are those of the first
  content, ending in the empty text part, followed by those of the second. And for every
  list of contents that joins, the parts come out unchanged exactly when no two
  neighbours of the concatenated part list both have a non-empty text: only such a pair is
  ever concatenated.
\<close>

theorem join_contents_empty_text_is_boundary:
  assumes "role c2 = role c1" and "parts c1 = ps @ [TextPart []]" and "parts c2 = TextPart t # qs"
    and "join_contents cs = Inr c"
  shows "join_contents [c1, c2] =
           Inr \<lparr>role = role c1,
                parts = (case ps of [] \<Rightarrow> [] | p # ps' \<Rightarrow> merge_parts [p] ps')
                        @ TextPart [] # merge_parts [TextPart t] qs\<rparr>
         \<and> (parts c = concat (map parts cs) \<longleftrightarrow>
              successively (\<lambda>a b. part_text a = [] \<or> part_text b = []) (concat (map parts cs)))"
proof -
  have boundary: "join_contents [c1, c2] =
           Inr \<lparr>role = role c1,
                parts = (case ps of [] \<Rightarrow> [] | p # ps' \<Rightarrow> merge_parts [p] ps')
                        @ TextPart [] # merge_parts [TextPart t] qs\<rparr>"
  proof (cases ps)
    case Nil
    have "merge_parts [TextPart [], TextPart t] qs = [TextPart []] @ merge_parts [TextPart t] qs"
      using merge_parts_prefix [of "[TextPart t]" "[TextPart []]" qs] by simp
    with Nil assms show ?thesis by (simp add: join_contents_def)
  next
    case (Cons p ps')
    let ?M = "merge_parts [p] ps'"
    have ne: "?M \<noteq> []" by (simp add: merge_parts_nonempty)
    have "merge_parts [p] (ps' @ TextPart [] # TextPart t # qs)
        = merge_parts ?M (TextPart [] # TextPart t # qs)"
      by (simp add: merge_parts_append)
    also have "\<dots> = merge_parts (?M @ [TextPart [], TextPart t]) qs" by simp
    also have "\<dots> = (?M @ [TextPart []]) @ merge_parts [TextPart t] qs"
      using merge_parts_prefix [of "[TextPart t]" "?M @ [TextPart []]" qs] by simp
    finally show ?thesis using Cons assms by (simp add: join_contents_def)
  qed
  obtain p ps0 where all: "concat (map parts cs) = p # ps0" and c: "parts c = merge_parts [p] ps0"
    using join_contents_parts [OF assms(4)] by blast
  have "merge_parts [p] ps0 = [p] @ ps0 \<longleftrightarrow>
      successively (\<lambda>a b. part_text a = [] \<or> part_text b = []) (last [p] # ps0)"
    by (rule merge_parts_unchanged) simp
  then have "parts c = concat (map parts cs) \<longleftrightarrow>
      successively (\<lambda>a b. part_text a = [] \<or> part_text b = []) (concat (map parts cs))"
    by (simp add: all c)
  with boundary show ?thesis by simp
qed

theorem join_contents_empty_text_is_boundary_witness:
  "join_contents [\<lparr>role = ''model'', parts = [TextPart []]\<rparr>,
                  \<lparr>role = ''model'', parts = [TextPart ''world!'']\<rparr>]
     = Inr \<lparr>role = ''model'', parts = [TextPart [], TextPart ''world!'']\<rparr>
   \<and> join_contents [\<lparr>role = ''model'', parts = [TextPart ''Hello, '', TextPart ''world!'']\<rparr>]
     = Inr \<lparr>role = ''model'', parts = [TextPart ''Hello, world!'']\<rparr>"
proof -
  have run: "join_contents [\<lparr>role = ''model'', parts = [TextPart ''Hello, '', TextPart ''world!'']\<rparr>]
     = Inr \<lparr>role = ''model'', parts = [TextPart ''Hello, world!'']\<rparr>"
    by (simp add: join_contents_def)
  show ?thesis
    using join_contents_empty_text_is_boundary
      [of "\<lparr>role = ''model'', parts = [TextPart ''world!'']\<rparr>"
          "\<lparr>role = ''model'', parts = [TextPart []]\<rparr>" "[]" "''world!''" "[]"
          "[\<lparr>role = ''model'', parts = [TextPart ''Hello, '', TextPart ''world!'']\<rparr>]"
          "\<lparr>role = ''model'', parts = [TextPart ''Hello, world!'']\<rparr>"] run
    by simp
qed

subsection \<open>The boundary between two contents\<close>

lemma merge_parts_last:
  "ms \<noteq> [] \<Longrightarrow>
   last (merge_parts ms [p]) =
     (if part_text (last ms) = [] \<or> part_text p = [] then p
      else TextPart (part_text (last ms) @ part_text p))"
  by simp

lemma merge_parts_hd:
  "hd (merge_parts [q] qs) = q \<or>
   (part_text q \<noteq> [] \<and> (\<exists>suf. hd (merge_parts [q] qs) = TextPart (part_text q @ suf)))"
proof (induction qs arbitrary: q)
  case Nil
  then show ?case by simp
next
  case (Cons q0 qs)
  show ?case
  proof (cases "part_text q = [] \<or> part_text q0 = []")
    case True
    then have "merge_parts [q] (q0 # qs) = [q] @ merge_parts [q0] qs"
      using merge_parts_prefix [of "[q0]" "[q]" qs] by auto
    then show ?thesis by simp
  next
    case False
    let ?m = "TextPart (part_text q @ part_text q0)"
    from False have step: "merge_parts [q] (q0 # qs) = merge_parts [?m] qs" by simp
    from Cons.IH [of ?m] show ?thesis
    proof
      assume "hd (merge_parts [?m] qs) = ?m"
      with step False show ?thesis by auto
    next
      assume "part_text ?m \<noteq> [] \<and> (\<exists>suf. hd (merge_parts [?m] qs) = TextPart (part_text ?m @ suf))"
      then obtain suf where "hd (merge_parts [?m] qs) = TextPart (part_text q @ part_text q0 @ suf)"
        by auto
      with step False show ?thesis by auto
    qed
  qed
qed

lemma merge_parts_hd_empty_text:
  "part_text q = [] \<Longrightarrow> hd (merge_parts [q] qs) = q"
  using merge_parts_hd [of q qs] by auto

lemma merge_parts_shift:
  "a \<noteq> [] \<Longrightarrow>
   merge_parts [TextPart (y @ a)] qs =
     TextPart (y @ part_text (hd (merge_parts [TextPart a] qs))) # tl (merge_parts [TextPart a] qs)"
proof (induction qs arbitrary: a)
  case Nil
  then show ?case by simp
next
  case (Cons q qs)
  show ?case
  proof (cases "part_text q = []")
    case True
    have "merge_parts [TextPart (y @ a), q] qs = [TextPart (y @ a)] @ merge_parts [q] qs"
      and "merge_parts [TextPart a, q] qs = [TextPart a] @ merge_parts [q] qs"
      using merge_parts_prefix [of "[q]" "[TextPart (y @ a)]" qs]
        merge_parts_prefix [of "[q]" "[TextPart a]" qs] by simp_all
    with True Cons.prems show ?thesis by simp
  next
    case False
    with Cons.prems Cons.IH [of "a @ part_text q"] show ?thesis by simp
  qed
qed

text \<open>
  C2, as the claim states it, fails: two text parts meet at the boundary and stay two
  parts when one of them holds the empty string.
\<close>

theorem join_contents_text_parts_not_joined:
  "join_contents [\<lparr>role = ''model'', parts = [TextPart ''Hello, '']\<rparr>,
                  \<lparr>role = ''model'', parts = [TextPart []]\<rparr>]
     = Inr \<lparr>role = ''model'', parts = [TextPart ''Hello, '', TextPart []]\<rparr>"
  by (simp add: join_contents_def)

text \<open>
  C2, amended: let two contents have the same role, the first ending in the part \<open>p\<close>
  and the second beginning with the part \<open>q\<close>; let \<open>M1\<close> and \<open>M2\<close> be the parts
  of each content merged on its own. When \<open>p\<close> and \<open>q\<close> both have a non-empty
  text, \<^verbatim>\<open>_join_contents\<close> gives one part at the boundary: the last part of \<open>M1\<close> and
  the first part of \<open>M2\<close> become a single text part whose text is the concatenation of
  their texts, the former ending in the text of \<open>p\<close> and the latter beginning with the
  text of \<open>q\<close>. When \<open>p\<close> or \<open>q\<close> has no text or an empty one, the two remain
  separate parts, in order: the result is \<open>M1\<close> followed by \<open>M2\<close>.
\<close>

theorem join_contents_boundary:
  assumes "role c2 = role c1" and "parts c1 = ps @ [p]" and "parts c2 = q # qs"
  shows "(part_text p \<noteq> [] \<and> part_text q \<noteq> [] \<longrightarrow>
           join_contents [c1, c2] =
             Inr \<lparr>role = role c1,
                  parts = butlast (merge_parts [hd (parts c1)] (tl (parts c1)))
                    @ TextPart (part_text (last (merge_parts [hd (parts c1)] (tl (parts c1))))
                                @ part_text (hd (merge_parts [q] qs)))
                    # tl (merge_parts [q] qs)\<rparr>
           \<and> (\<exists>pre. part_text (last (merge_parts [hd (parts c1)] (tl (parts c1)))) = pre @ part_text p)
           \<and> (\<exists>suf. part_text (hd (merge_parts [q] qs)) = part_text q @ suf))
       \<and> (part_text p = [] \<or> part_text q = [] \<longrightarrow>
           join_contents [c1, c2] =
             Inr \<lparr>role = role c1,
                  parts = merge_parts [hd (parts c1)] (tl (parts c1)) @ merge_parts [q] qs\<rparr>
           \<and> (part_text p = [] \<longrightarrow> last (merge_parts [hd (parts c1)] (tl (parts c1))) = p)
           \<and> (part_text q = [] \<longrightarrow> hd (merge_parts [q] qs) = q))"
proof -
  let ?M1 = "merge_parts [hd (parts c1)] (tl (parts c1))"
  let ?M2 = "merge_parts [q] qs"
  have "parts c1 \<noteq> []" using assms(2) by simp
  then obtain x xs where c1: "parts c1 = x # xs"
    by (cases "parts c1") simp_all
  have ne: "?M1 \<noteq> []" by (simp add: merge_parts_nonempty)
  have joined: "join_contents [c1, c2] = Inr \<lparr>role = role c1, parts = merge_parts ?M1 (q # qs)\<rparr>"
    using assms(1,3) c1 by (simp add: join_contents_def merge_parts_append)
  have last_M1: "last ?M1 = p \<and> part_text p = [] \<or>
      part_text p \<noteq> [] \<and> (\<exists>pre. part_text (last ?M1) = pre @ part_text p)"
  proof (cases ps)
    case Nil
    with assms(2) have "?M1 = [p]" by simp
    then show ?thesis by simp
  next
    case (Cons y ys)
    with assms(2) have "?M1 = merge_parts (merge_parts [y] ys) [p]"
      by (simp add: merge_parts_append)
    then have "last ?M1 =
        (if part_text (last (merge_parts [y] ys)) = [] \<or> part_text p = [] then p
         else TextPart (part_text (last (merge_parts [y] ys)) @ part_text p))"
      using merge_parts_last [of "merge_parts [y] ys" p] by (simp add: merge_parts_nonempty)
    then show ?thesis by (cases "part_text p = []") auto
  qed
  have both: "join_contents [c1, c2] =
      Inr \<lparr>role = role c1,
           parts = butlast ?M1 @ TextPart (part_text (last ?M1) @ part_text (hd ?M2)) # tl ?M2\<rparr>"
    if p: "part_text p \<noteq> []" and q: "part_text q \<noteq> []"
  proof -
    from q obtain t where t: "q = TextPart t" "t \<noteq> []" by (cases q) auto
    from p last_M1 have u: "part_text (last ?M1) \<noteq> []" by auto
    have "merge_parts ?M1 (q # qs)
        = merge_parts (butlast ?M1 @ [TextPart (part_text (last ?M1) @ t)]) qs"
      using u t by simp
    also have "\<dots> = butlast ?M1 @ merge_parts [TextPart (part_text (last ?M1) @ t)] qs"
      by (rule merge_parts_prefix) simp
    also have "merge_parts [TextPart (part_text (last ?M1) @ t)] qs
        = TextPart (part_text (last ?M1) @ part_text (hd ?M2)) # tl ?M2"
      using merge_parts_shift [OF t(2), of "part_text (last ?M1)" qs] t(1) by simp
    finally show ?thesis using joined by simp
  qed
  have apart: "join_contents [c1, c2] = Inr \<lparr>role = role c1, parts = ?M1 @ ?M2\<rparr>"
    if "part_text p = [] \<or> part_text q = []"
  proof -
    from that last_M1 have "part_text (last ?M1) = [] \<or> part_text q = []" by auto
    then have "merge_parts ?M1 (q # qs) = merge_parts (?M1 @ [q]) qs" by auto
    also have "\<dots> = ?M1 @ ?M2" by (rule merge_parts_prefix) simp
    finally show ?thesis using joined by simp
  qed
  have suf: "\<exists>suf. part_text (hd ?M2) = part_text q @ suf"
    using merge_parts_hd [of q qs] by (metis append_Nil2 part_text.simps(1))
  from both apart last_M1 suf merge_parts_hd_empty_text [of q qs] show ?thesis
    by auto
qed

theorem join_contents_boundary_witness:
  "join_contents [\<lparr>role = ''model'', parts = [TextPart ''Hello, '']\<rparr>,
                  \<lparr>role = ''model'', parts = [TextPart ''world!'']\<rparr>]
     = Inr \<lparr>role = ''model'', parts = [TextPart ''Hello, world!'']\<rparr>
   \<and> join_contents [\<lparr>role = ''model'', parts = [TextPart ''Hello, '']\<rparr>,
                    \<lparr>role = ''model'', parts = [InlineData ''image/png'' ''abc'']\<rparr>]
     = Inr \<lparr>role = ''model'', parts = [TextPart ''Hello, '', InlineData ''image/png'' ''abc'']\<rparr>"
  using join_contents_boundary
      [of "\<lparr>role = ''model'', parts = [TextPart ''world!'']\<rparr>"
          "\<lparr>role = ''model'', parts = [TextPart ''Hello, '']\<rparr>"
          "[]" "TextPart ''Hello, ''" "TextPart ''world!''" "[]"]
    join_contents_boundary
      [of "\<lparr>role = ''model'', parts = [InlineData ''image/png'' ''abc'']\<rparr>"
          "\<lparr>role = ''model'', parts = [TextPart ''Hello, '']\<rparr>"
          "[]" "TextPart ''Hello, ''" "InlineData ''image/png'' ''abc''" "[]"]
  by simp

subsection \<open>Dictionaries\<close>

lemma key_order_snoc:
  "key_order (ks @ [k]) = (if k \<in> set ks then key_order ks else key_order ks @ [k])"
  by (simp add: key_order_def)

lemma key_order_Nil: "key_order [] = []"
  by (simp add: key_order_def)

lemma set_key_order: "set (key_order ks) = set ks"
  by (simp add: key_order_def)

lemma distinct_key_order: "distinct (key_order ks)"
  by (simp add: key_order_def)

lemma key_order_absorb: "key_order (key_order xs @ ys) = key_order (xs @ ys)"
proof (induction ys rule: rev_induct)
  case Nil
  show ?case
  proof (induction xs rule: rev_induct)
    case Nil
    then show ?case by (simp add: key_order_Nil)
  next
    case (snoc x xs)
    then show ?case
      by (simp add: key_order_snoc set_key_order)
  qed
next
  case (snoc y ys)
  have "key_order ((key_order xs @ ys) @ [y]) = key_order ((xs @ ys) @ [y])"
    unfolding key_order_snoc [of "key_order xs @ ys"] key_order_snoc [of "xs @ ys"]
    using snoc by (simp add: set_key_order)
  then show ?case by simp
qed

lemma dict_set_keyed:
  "distinct ks \<Longrightarrow>
   dict_set (map (\<lambda>c. (c, f c)) ks) k v =
     map (\<lambda>c. (c, (f(k := v)) c)) (if k \<in> set ks then ks else ks @ [k])"
  by (induction ks) auto

lemma dict_append_keyed:
  "distinct ks \<Longrightarrow>
   dict_append (map (\<lambda>c. (c, f c)) ks) k v =
     map (\<lambda>c. (c, (f(k := (if k \<in> set ks then f k @ [v] else [v]))) c))
       (if k \<in> set ks then ks else ks @ [k])"
  by (induction ks) auto

lemma ratings_of_keyed:
  "ratings_of rs =
     map (\<lambda>c. (c, probability (last (filter (\<lambda>x. category x = c) rs))))
       (key_order (map category rs))"
proof (induction rs rule: rev_induct)
  case Nil
  then show ?case by (simp add: ratings_of_def key_order_Nil)
next
  case (snoc r rs)
  let ?f = "\<lambda>c. probability (last (filter (\<lambda>x. category x = c) rs))"
  have "ratings_of (rs @ [r]) = dict_set (ratings_of rs) (category r) (probability r)"
    by (simp add: ratings_of_def)
  also have "\<dots> = map (\<lambda>c. (c, (?f(category r := probability r)) c))
      (key_order (map category (rs @ [r])))"
    unfolding snoc.IH
    by (subst dict_set_keyed) (simp_all add: distinct_key_order key_order_snoc set_key_order)
  also have "\<dots> = map (\<lambda>c. (c, probability (last (filter (\<lambda>x. category x = c) (rs @ [r])))))
      (key_order (map category (rs @ [r])))"
    by (rule map_cong) auto
  finally show ?case .
qed

lemma dict_append_fold_keyed:
  "foldl (\<lambda>d x. dict_append d (key x) (val x)) [] xs =
     map (\<lambda>k. (k, map val (filter (\<lambda>x. key x = k) xs))) (key_order (map key xs))"
proof (induction xs rule: rev_induct)
  case Nil
  then show ?case by (simp add: key_order_Nil)
next
  case (snoc y xs)
  let ?f = "\<lambda>k. map val (filter (\<lambda>x. key x = k) xs)"
  let ?k = "key y"
  have none: "(if ?k \<in> set (key_order (map key xs)) then ?f ?k @ [val y] else [val y])
      = ?f ?k @ [val y]"
  proof (cases "?k \<in> key ` set xs")
    case True
    then show ?thesis by (simp add: set_key_order)
  next
    case False
    then have "\<forall>x\<in>set xs. key x \<noteq> ?k" by (metis imageI)
    then have "filter (\<lambda>x. key x = ?k) xs = []" by (simp add: filter_empty_conv)
    then show ?thesis by simp
  qed
  have "foldl (\<lambda>d x. dict_append d (key x) (val x)) [] (xs @ [y])
      = dict_append (foldl (\<lambda>d x. dict_append d (key x) (val x)) [] xs) ?k (val y)"
    by simp
  also have "\<dots> = map (\<lambda>k. (k, (?f(?k := ?f ?k @ [val y])) k)) (key_order (map key (xs @ [y])))"
    unfolding snoc.IH
    by (subst dict_append_keyed, simp add: distinct_key_order, subst none)
       (simp add: key_order_snoc set_key_order)
  also have "\<dots> = map (\<lambda>k. (k, map val (filter (\<lambda>x. key x = k) (xs @ [y]))))
      (key_order (map key (xs @ [y])))"
    by (rule map_cong) auto
  finally show ?case .
qed

lemma blocked_of_keyed:
  "blocked_of rs =
     map (\<lambda>c. (c, map blocked (filter (\<lambda>x. category x = c) rs)))
       (key_order (map category rs))"
  unfolding blocked_of_def by (rule dict_append_fold_keyed)

lemma group_by_index_keyed:
  "group_by_index cs =
     map (\<lambda>i. (i, filter (\<lambda>c. index c = i) cs)) (key_order (map index cs))"
  unfolding group_by_index_def
  using dict_append_fold_keyed [of index "\<lambda>c. c" cs] by simp

lemma insort_key_keyed:
  "insort_key fst (i, g i) (map (\<lambda>i. (i, g i)) ks) = map (\<lambda>i. (i, g i)) (insort i ks)"
  by (induction ks) auto

lemma sort_key_keyed:
  "sort_key fst (map (\<lambda>i. (i, g i)) ks) = map (\<lambda>i. (i, g i)) (sort ks)"
  by (induction ks) (simp_all add: insort_key_keyed)

lemma sort_key_order: "sort (key_order ks) = sorted_list_of_set (set ks)"
proof (rule sorted_distinct_set_unique)
  show "sorted (sort (key_order ks))" by simp
  show "distinct (sort (key_order ks))" by (simp add: distinct_key_order)
  show "sorted (sorted_list_of_set (set ks))" by simp
  show "distinct (sorted_list_of_set (set ks))" by simp
  show "set (sort (key_order ks)) = set (sorted_list_of_set (set ks))"
    by (simp add: set_key_order)
qed

subsection \<open>Safety ratings\<close>

lemma join_safety_ratings_lists_keyed:
  "join_safety_ratings_lists ls =
     map (\<lambda>c. \<lparr>category = c,
                probability = probability (last (filter (\<lambda>x. category x = c) (concat ls))),
                blocked = list_ex blocked (filter (\<lambda>x. category x = c) (concat ls))\<rparr>)
       (key_order (map category (concat ls)))"
  by (simp add: join_safety_ratings_lists_def ratings_of_keyed blocked_of_keyed zip_map_map
      zip_same_conv_map comp_def list_ex_iff)

text \<open>
  C3: the output of \<^verbatim>\<open>_join_safety_ratings_lists\<close> has exactly one rating for each
  category of the input, in the order in which the categories first appear; that rating
  carries the probability of the last input rating of its category, and it is blocked
  exactly when some input rating of its category is blocked.
\<close>

theorem join_safety_ratings_lists_per_category:
  "distinct (map category (join_safety_ratings_lists ls))
   \<and> set (map category (join_safety_ratings_lists ls)) = set (map category (concat ls))
   \<and> map category (join_safety_ratings_lists ls) = key_order (map category (concat ls))
   \<and> (\<forall>r\<in>set (join_safety_ratings_lists ls).
        probability r = probability (last (filter (\<lambda>x. category x = category r) (concat ls)))
        \<and> (blocked r \<longleftrightarrow> (\<exists>x\<in>set (concat ls). category x = category r \<and> blocked x)))"
proof -
  have keys: "map category (join_safety_ratings_lists ls) = key_order (map category (concat ls))"
    by (simp add: join_safety_ratings_lists_keyed comp_def)
  have each: "\<forall>r\<in>set (join_safety_ratings_lists ls).
        probability r = probability (last (filter (\<lambda>x. category x = category r) (concat ls)))
        \<and> (blocked r \<longleftrightarrow> (\<exists>x\<in>set (concat ls). category x = category r \<and> blocked x))"
    unfolding join_safety_ratings_lists_keyed by (auto simp: list_ex_iff)
  from keys have "distinct (map category (join_safety_ratings_lists ls))"
    and "set (map category (join_safety_ratings_lists ls)) = set (map category (concat ls))"
    by (simp_all only: distinct_key_order set_key_order)
  with keys each show ?thesis by blast
qed

theorem join_safety_ratings_lists_per_category_witness:
  "join_safety_ratings_lists
     [[\<lparr>category = 7, probability = 1, blocked = False\<rparr>,
       \<lparr>category = 8, probability = 2, blocked = False\<rparr>],
      [\<lparr>category = 8, probability = 1, blocked = False\<rparr>,
       \<lparr>category = 7, probability = 3, blocked = True\<rparr>]]
   = [\<lparr>category = 7, probability = 3, blocked = True\<rparr>,
      \<lparr>category = 8, probability = 1, blocked = False\<rparr>]"
proof -
  let ?ls = "[[\<lparr>category = 7, probability = 1, blocked = False\<rparr>,
       \<lparr>category = 8, probability = 2, blocked = False\<rparr>],
      [\<lparr>category = 8, probability = 1, blocked = False\<rparr>,
       \<lparr>category = 7, probability = 3, blocked = True\<rparr>]]"
  have keys: "key_order (map category (concat ?ls)) = [7, 8]"
    by (simp add: key_order_def)
  obtain a b where ab: "join_safety_ratings_lists ?ls = [a, b]"
    by (simp add: join_safety_ratings_lists_def ratings_of_def blocked_of_def)
  from join_safety_ratings_lists_per_category [of ?ls] ab keys
  have "category a = 7" "category b = 8" "probability a = 3" "probability b = 1"
    "blocked a" "\<not> blocked b"
    by simp_all
  then have "a = \<lparr>category = 7, probability = 3, blocked = True\<rparr>"
    and "b = \<lparr>category = 8, probability = 1, blocked = False\<rparr>"
    by simp_all
  with ab show ?thesis by simp
qed

subsection \<open>Candidates\<close>

lemma join_candidate_lists_keyed:
  "join_candidate_lists ls =
     join_groups (map (\<lambda>i. filter (\<lambda>c. index c = i) (concat ls))
                    (sorted_list_of_set (index ` set (concat ls))))"
  by (simp add: join_candidate_lists_def group_by_index_keyed sort_key_keyed sort_key_order
      comp_def)

lemma join_groups_Inr:
  "join_groups gs = Inr cs \<longleftrightarrow> list_all2 (\<lambda>g c. join_candidates g = Inr c) gs cs"
proof (induction gs arbitrary: cs)
  case Nil
  then show ?case by auto
next
  case (Cons g gs)
  show ?case
  proof (cases "join_candidates g")
    case (Inl e)
    then show ?thesis by (auto simp: list_all2_Cons1)
  next
    case (Inr c)
    show ?thesis
    proof (cases "join_groups gs")
      case (Inl e)
      with Inr Cons.IH show ?thesis by (auto simp: list_all2_Cons1)
    next
      case rest: (Inr cs')
      with Inr Cons.IH [of cs'] Cons.IH show ?thesis
        by (auto simp: list_all2_Cons1)
    qed
  qed
qed

lemma join_groups_cong:
  "(\<And>x. x \<in> set xs \<Longrightarrow> join_candidates (f x) = join_candidates (g x)) \<Longrightarrow>
   join_groups (map f xs) = join_groups (map g xs)"
proof (induction xs)
  case Nil
  then show ?case by simp
next
  case (Cons a xs)
  then have "join_candidates (f a) = join_candidates (g a)"
    and "join_groups (map f xs) = join_groups (map g xs)"
    by simp_all
  then show ?case by (simp cong: sum.case_cong)
qed

lemma join_candidates_Inr:
  assumes "join_candidates g = Inr c"
  shows "g \<noteq> []" and "index c = index (hd g)" and "list_all (\<lambda>x. index x = index c) g"
    and "finish_reason c = finish_reason (last g)"
    and "join_contents (map cand_content g) = Inr (cand_content c)"
    and "safety_ratings c = join_safety_ratings_lists (map safety_ratings g)"
    and "cand_citation_metadata c = join_citation_metadatas (map cand_citation_metadata g)"
  using assms by (auto simp: join_candidates_def split: list.splits if_splits sum.splits)

lemma filter_index_hd:
  "filter (\<lambda>x. index x = i) cs \<noteq> [] \<Longrightarrow> index (hd (filter (\<lambda>x. index x = i) cs)) = i"
  by (induction cs) (auto split: if_splits)

lemma list_all2_key_eq: "list_all2 (\<lambda>i c. i = f c) I R \<Longrightarrow> map f R = I"
  by (induction I R rule: list_all2_induct) simp_all

lemma list_all2_in_set2: "list_all2 P I R \<Longrightarrow> c \<in> set R \<Longrightarrow> \<exists>i. P i c"
  by (induction I R rule: list_all2_induct) auto

lemma join_candidate_lists_Inr:
  assumes "join_candidate_lists ls = Inr R"
  shows "map index R = sorted_list_of_set (index ` set (concat ls))"
    and "\<forall>c\<in>set R. join_candidates (filter (\<lambda>x. index x = index c) (concat ls)) = Inr c"
proof -
  let ?I = "sorted_list_of_set (index ` set (concat ls))"
  let ?P = "\<lambda>i c. join_candidates (filter (\<lambda>x. index x = i) (concat ls)) = Inr c"
  have "join_groups (map (\<lambda>i. filter (\<lambda>c. index c = i) (concat ls)) ?I) = Inr R"
    using assms unfolding join_candidate_lists_keyed .
  then have "list_all2 (\<lambda>g c. join_candidates g = Inr c)
      (map (\<lambda>i. filter (\<lambda>c. index c = i) (concat ls)) ?I) R"
    unfolding join_groups_Inr .
  then have all2: "list_all2 ?P ?I R"
    unfolding list_all2_map1 .
  have idx: "i = index c" if "?P i c" for i c
    using join_candidates_Inr(1,2) [OF that] filter_index_hd [of i "concat ls"] by simp
  from all2 have "list_all2 (\<lambda>i c. i = index c) ?I R"
    by (rule list_all2_mono) (rule idx)
  then show "map index R = ?I"
    by (rule list_all2_key_eq)
  show "\<forall>c\<in>set R. join_candidates (filter (\<lambda>x. index x = index c) (concat ls)) = Inr c"
  proof
    fix c
    assume "c \<in> set R"
    then have "\<exists>i. ?P i c" by (rule list_all2_in_set2 [OF all2])
    then obtain i where i: "?P i c" ..
    have e: "i = index c" by (rule idx [OF i])
    show "?P (index c) c" using i unfolding e .
  qed
qed

lemma join_chunks_Inr:
  assumes "join_chunks ms = Inr r"
  shows "join_candidate_lists (map candidates ms) = Inr (candidates r)"
    and "ms \<noteq> []" and "chunk_prompt_feedback r = chunk_prompt_feedback (hd ms)"
  using assms
  by (auto simp: join_chunks_def join_prompt_feedbacks_def split: sum.splits list.splits)

text \<open>
  C4: whenever \<^verbatim>\<open>_join_chunks\<close> merges the messages of a stream, the merged result has
  one candidate for each index the messages mention, in ascending order of the index, and
  the finish reason of each is that of the last candidate, in arrival order, with its
  index. So for an index that the message \<open>m\<close> mentions and no later message does, the
  merged candidate carries the finish reason that \<open>m\<close> gives it, whatever the earlier
  messages said.
\<close>

theorem join_chunks_finish_reason_of_last_mention:
  assumes "join_chunks ms = Inr r"
  shows "map index (candidates r) = sorted_list_of_set (index ` set (concat (map candidates ms)))
         \<and> (\<forall>c\<in>set (candidates r).
               finish_reason c =
                 finish_reason (last (filter (\<lambda>x. index x = index c) (concat (map candidates ms)))))
         \<and> (\<forall>before m after i.
               ms = before @ m # after \<and> i \<in> index ` set (candidates m)
               \<and> (\<forall>m'\<in>set after. i \<notin> index ` set (candidates m')) \<longrightarrow>
               (\<exists>c\<in>set (candidates r). index c = i \<and>
                  finish_reason c = finish_reason (last (filter (\<lambda>x. index x = i) (candidates m)))))"
proof -
  let ?all = "concat (map candidates ms)"
  note R = join_candidate_lists_Inr [OF join_chunks_Inr(1) [OF assms]]
  have fin: "\<forall>c\<in>set (candidates r).
      finish_reason c = finish_reason (last (filter (\<lambda>x. index x = index c) ?all))"
    using R(2) join_candidates_Inr(4) by blast
  have msg: "\<exists>c\<in>set (candidates r). index c = i \<and>
      finish_reason c = finish_reason (last (filter (\<lambda>x. index x = i) (candidates m)))"
    if ms: "ms = before @ m # after" and i: "i \<in> index ` set (candidates m)"
      and later: "\<forall>m'\<in>set after. i \<notin> index ` set (candidates m')"
    for before m after i
  proof -
    from i ms have "i \<in> index ` set ?all" by auto
    then have "i \<in> set (map index (candidates r))" by (simp add: R(1))
    then obtain c where c: "c \<in> set (candidates r)" "index c = i" by auto
    from later have "filter (\<lambda>x. index x = i) (concat (map candidates after)) = []"
      by (auto simp: filter_empty_conv)
    moreover from i have "filter (\<lambda>x. index x = i) (candidates m) \<noteq> []"
      by (auto simp: filter_empty_conv)
    ultimately have "last (filter (\<lambda>x. index x = i) ?all)
        = last (filter (\<lambda>x. index x = i) (candidates m))"
      by (simp add: ms)
    with fin c show ?thesis by auto
  qed
  from R(1) fin msg show ?thesis by blast
qed

theorem join_chunks_finish_reason_of_last_mention_witness:
  "join_chunks
     [\<lparr>candidates =
         [\<lparr>index = 0, cand_content = \<lparr>role = ''model'', parts = [TextPart ''a'']\<rparr>,
           finish_reason = 0, safety_ratings = [],
           cand_citation_metadata = \<lparr>citation_sources = []\<rparr>\<rparr>],
       chunk_prompt_feedback = \<lparr>block_reason = 0, feedback_safety_ratings = []\<rparr>\<rparr>,
      \<lparr>candidates =
         [\<lparr>index = 1, cand_content = \<lparr>role = ''model'', parts = [TextPart ''x'']\<rparr>,
           finish_reason = 1, safety_ratings = [],
           cand_citation_metadata = \<lparr>citation_sources = []\<rparr>\<rparr>,
          \<lparr>index = 0, cand_content = \<lparr>role = ''model'', parts = [TextPart ''b'']\<rparr>,
           finish_reason = 3, safety_ratings = [],
           cand_citation_metadata = \<lparr>citation_sources = []\<rparr>\<rparr>],
       chunk_prompt_feedback = \<lparr>block_reason = 0, feedback_safety_ratings = []\<rparr>\<rparr>,
      \<lparr>candidates =
         [\<lparr>index = 0, cand_content = \<lparr>role = ''model'', parts = [TextPart ''c'']\<rparr>,
           finish_reason = 2, safety_ratings = [],
           cand_citation_metadata = \<lparr>citation_sources = []\<rparr>\<rparr>],
       chunk_prompt_feedback = \<lparr>block_reason = 0, feedback_safety_ratings = []\<rparr>\<rparr>]
   = Inr \<lparr>candidates =
         [\<lparr>index = 0, cand_content = \<lparr>role = ''model'', parts = [TextPart ''abc'']\<rparr>,
           finish_reason = 2, safety_ratings = [],
           cand_citation_metadata = \<lparr>citation_sources = []\<rparr>\<rparr>,
          \<lparr>index = 1, cand_content = \<lparr>role = ''model'', parts = [TextPart ''x'']\<rparr>,
           finish_reason = 1, safety_ratings = [],
           cand_citation_metadata = \<lparr>citation_sources = []\<rparr>\<rparr>],
       chunk_prompt_feedback = \<lparr>block_reason = 0, feedback_safety_ratings = []\<rparr>\<rparr>
   \<and> map index
        [\<lparr>index = 0, cand_content = \<lparr>role = ''model'', parts = [TextPart ''abc'']\<rparr>,
           finish_reason = 2, safety_ratings = [],
           cand_citation_metadata = \<lparr>citation_sources = []\<rparr>\<rparr>,
          \<lparr>index = 1, cand_content = \<lparr>role = ''model'', parts = [TextPart ''x'']\<rparr>,
           finish_reason = 1, safety_ratings = [],
           cand_citation_metadata = \<lparr>citation_sources = []\<rparr>\<rparr>]
      = sorted_list_of_set {0, 1}"
  (is "join_chunks ?ms = Inr ?r \<and> _")
proof -
  have run: "join_chunks ?ms = Inr ?r"
    by (simp add: join_chunks_def join_candidate_lists_def group_by_index_def join_candidates_def
        join_contents_def join_safety_ratings_lists_def ratings_of_def blocked_of_def
        join_citation_metadatas_def join_prompt_feedbacks_def)
  from join_chunks_finish_reason_of_last_mention [OF run] run show ?thesis
    by (simp add: insert_commute)
qed

subsection \<open>Merging what was merged\<close>

lemma merge_parts_separated:
  "ms \<noteq> [] \<Longrightarrow>
   successively (\<lambda>a b. part_text a = [] \<or> part_text b = []) ms \<Longrightarrow>
   successively (\<lambda>a b. part_text a = [] \<or> part_text b = []) (merge_parts ms ps)"
proof (induction ps arbitrary: ms)
  case Nil
  then show ?case by simp
next
  case (Cons p ps)
  let ?Q = "\<lambda>a b. part_text a = [] \<or> part_text b = []"
  show ?case
  proof (cases "part_text (last ms) = [] \<or> part_text p = []")
    case True
    with Cons.prems have "successively ?Q (ms @ [p])"
      by (simp add: successively_append_iff)
    then have "successively ?Q (merge_parts (ms @ [p]) ps)"
      by (intro Cons.IH) simp_all
    with True show ?thesis by auto
  next
    case False
    let ?t = "TextPart (part_text (last ms) @ part_text p)"
    from Cons.prems have ms: "ms = butlast ms @ [last ms]" by simp
    from Cons.prems(2) have "successively ?Q (butlast ms @ [last ms])"
      using ms by simp
    then have sep: "successively ?Q (butlast ms)"
      and edge: "butlast ms = [] \<or> ?Q (last (butlast ms)) (last ms)"
      by (simp_all add: successively_append_iff)
    from edge False have "butlast ms = [] \<or> ?Q (last (butlast ms)) ?t" by auto
    with sep have "successively ?Q (butlast ms @ [?t])"
      by (simp add: successively_append_iff)
    then have "successively ?Q (merge_parts (butlast ms @ [?t]) ps)"
      by (intro Cons.IH) simp_all
    with False show ?thesis by simp
  qed
qed

lemma merge_parts_merged:
  "merge_parts [hd (merge_parts [p] ps)] (tl (merge_parts [p] ps)) = merge_parts [p] ps"
proof -
  let ?M = "merge_parts [p] ps"
  have ne: "?M \<noteq> []" by (simp add: merge_parts_nonempty)
  have "successively (\<lambda>a b. part_text a = [] \<or> part_text b = []) ?M"
    by (rule merge_parts_separated) simp_all
  then have "successively (\<lambda>a b. part_text a = [] \<or> part_text b = []) (last [hd ?M] # tl ?M)"
    using ne by simp
  then have "merge_parts [hd ?M] (tl ?M) = [hd ?M] @ tl ?M"
    using merge_parts_unchanged [of "[hd ?M]" "tl ?M"] by simp
  with ne show ?thesis by simp
qed

lemma join_contents_absorb:
  assumes "join_contents A = Inr a"
  shows "join_contents (a # B) = join_contents (A @ B)"
proof -
  from assms obtain c0 A' where A: "A = c0 # A'" and roles: "list_all (\<lambda>c. role c = role c0) A"
    by (auto simp: join_contents_def split: list.splits if_splits)
  from assms A roles obtain p ps where all: "concat (map parts A) = p # ps"
    and a: "a = \<lparr>role = role c0, parts = merge_parts [p] ps\<rparr>"
    by (auto simp: join_contents_def split: list.splits if_splits)
  let ?M = "merge_parts [p] ps"
  have ne: "?M \<noteq> []" by (simp add: merge_parts_nonempty)
  then obtain q qs where M: "?M = q # qs" by (cases ?M) auto
  have "merge_parts [q] (qs @ concat (map parts B)) = merge_parts ?M (concat (map parts B))"
    using merge_parts_merged [of p ps] by (simp add: M merge_parts_append)
  also have "\<dots> = merge_parts [p] (ps @ concat (map parts B))"
    by (simp add: merge_parts_append)
  finally have parts_eq: "merge_parts [q] (qs @ concat (map parts B))
      = merge_parts [p] (ps @ concat (map parts B))" .
  have left: "join_contents (a # B) =
      (if \<not> list_all (\<lambda>c. role c = role c0) B then Inl AssertionError
       else Inr \<lparr>role = role c0, parts = merge_parts [q] (qs @ concat (map parts B))\<rparr>)"
    by (simp add: join_contents_def a M)
  have right: "join_contents (A @ B) =
      (if \<not> list_all (\<lambda>c. role c = role c0) B then Inl AssertionError
       else Inr \<lparr>role = role c0, parts = merge_parts [p] (ps @ concat (map parts B))\<rparr>)"
  proof -
    have cat: "concat (map parts (A @ B)) = p # (ps @ concat (map parts B))"
      using all by simp
    have "A @ B = c0 # (A' @ B)" by (simp add: A)
    then show ?thesis
      unfolding join_contents_def cat using roles by (simp add: A)
  qed
  from left right parts_eq show ?thesis by simp
qed

lemma filter_category_keyed:
  "distinct ks \<Longrightarrow>
   filter (\<lambda>x. category x = c) (map (\<lambda>k. \<lparr>category = k, probability = f k, blocked = g k\<rparr>) ks)
     = (if c \<in> set ks then [\<lparr>category = c, probability = f c, blocked = g c\<rparr>] else [])"
  by (induction ks) auto

lemma join_safety_ratings_lists_absorb:
  "join_safety_ratings_lists (join_safety_ratings_lists As # Bs)
     = join_safety_ratings_lists (As @ Bs)"
proof -
  let ?X = "concat As" and ?Y = "concat Bs"
  let ?P = "\<lambda>xs c. probability (last (filter (\<lambda>x. category x = c) xs))"
  let ?B = "\<lambda>xs c. list_ex blocked (filter (\<lambda>x. category x = c) xs)"
  let ?J = "join_safety_ratings_lists As"
  have J: "?J = map (\<lambda>c. \<lparr>category = c, probability = ?P ?X c, blocked = ?B ?X c\<rparr>)
      (key_order (map category ?X))"
    by (rule join_safety_ratings_lists_keyed)
  have cats: "map category ?J = key_order (map category ?X)"
    by (simp add: J comp_def)
  have keys: "key_order (map category (?J @ ?Y)) = key_order (map category (?X @ ?Y))"
    using key_order_absorb [of "map category ?X" "map category ?Y"] by (simp add: cats)
  have filt: "filter (\<lambda>x. category x = c) ?J
      = (if c \<in> category ` set ?X
         then [\<lparr>category = c, probability = ?P ?X c, blocked = ?B ?X c\<rparr>] else [])" for c
    unfolding J using filter_category_keyed [of "key_order (map category ?X)" c "?P ?X" "?B ?X"]
    by (simp add: distinct_key_order set_key_order)
  have empty: "filter (\<lambda>x. category x = c) ?X = []" if "c \<notin> category ` set ?X" for c
    using that by (auto simp: filter_empty_conv)
  have prob: "?P (?J @ ?Y) c = ?P (?X @ ?Y) c" if "c \<in> category ` set (?X @ ?Y)" for c
  proof (cases "filter (\<lambda>x. category x = c) ?Y = []")
    case True
    then have "\<forall>x\<in>set ?Y. category x \<noteq> c" by (simp add: filter_empty_conv)
    with that have "c \<in> category ` set ?X" by auto
    with True show ?thesis by (simp add: filt)
  next
    case False
    then show ?thesis by simp
  qed
  have blk: "?B (?J @ ?Y) c = ?B (?X @ ?Y) c" for c
  proof (cases "c \<in> category ` set ?X")
    case True
    then show ?thesis by (simp add: filt)
  next
    case False
    then show ?thesis by (simp add: filt empty)
  qed
  have "join_safety_ratings_lists (?J # Bs)
      = map (\<lambda>c. \<lparr>category = c, probability = ?P (?J @ ?Y) c, blocked = ?B (?J @ ?Y) c\<rparr>)
          (key_order (map category (?J @ ?Y)))"
    using join_safety_ratings_lists_keyed [of "?J # Bs"] by simp
  also have "\<dots> = map (\<lambda>c. \<lparr>category = c, probability = ?P (?X @ ?Y) c, blocked = ?B (?X @ ?Y) c\<rparr>)
          (key_order (map category (?X @ ?Y)))"
    unfolding keys
  proof (rule map_cong [OF refl])
    fix c
    assume "c \<in> set (key_order (map category (?X @ ?Y)))"
    then have "c \<in> category ` set (?X @ ?Y)" by (auto simp: set_key_order)
    then show "\<lparr>category = c, probability = ?P (?J @ ?Y) c, blocked = ?B (?J @ ?Y) c\<rparr>
        = \<lparr>category = c, probability = ?P (?X @ ?Y) c, blocked = ?B (?X @ ?Y) c\<rparr>"
      using prob [of c] blk [of c] by simp
  qed
  also have "\<dots> = join_safety_ratings_lists (As @ Bs)"
    using join_safety_ratings_lists_keyed [of "As @ Bs"] by simp
  finally show ?thesis .
qed

lemma join_citation_metadatas_absorb:
  "join_citation_metadatas (join_citation_metadatas As # Bs) = join_citation_metadatas (As @ Bs)"
  by (simp add: join_citation_metadatas_def)

lemma join_candidates_absorb:
  assumes "join_candidates A = Inr a"
  shows "join_candidates (a # B) = join_candidates (A @ B)"
proof -
  note facts = join_candidates_Inr [OF assms]
  from facts(1) obtain c0 A' where A: "A = c0 # A'" by (cases A) auto
  have idx: "index a = index c0" using facts(2) by (simp add: A)
  have same: "list_all (\<lambda>c. index c = index c0) A" using facts(3) by (simp add: idx)
  have cont: "join_contents (cand_content a # map cand_content B)
      = join_contents (map cand_content A @ map cand_content B)"
    by (rule join_contents_absorb) (rule facts(5))
  have fin: "finish_reason (last (a # B)) = finish_reason (last (A @ B))"
    using facts(1,4) by simp
  have saf: "join_safety_ratings_lists (safety_ratings a # map safety_ratings B)
      = join_safety_ratings_lists (map safety_ratings A @ map safety_ratings B)"
    unfolding facts(6) by (rule join_safety_ratings_lists_absorb)
  have cit: "join_citation_metadatas (cand_citation_metadata a # map cand_citation_metadata B)
      = join_citation_metadatas (map cand_citation_metadata A @ map cand_citation_metadata B)"
    unfolding facts(7) by (rule join_citation_metadatas_absorb)
  have left: "join_candidates (a # B) =
      (if \<not> list_all (\<lambda>c. index c = index c0) B then Inl AssertionError
       else (case join_contents (cand_content a # map cand_content B) of
               Inl e \<Rightarrow> Inl e
             | Inr joined \<Rightarrow>
                 Inr \<lparr>index = index c0,
                      cand_content = joined,
                      finish_reason = finish_reason (last (a # B)),
                      safety_ratings =
                        join_safety_ratings_lists (safety_ratings a # map safety_ratings B),
                      cand_citation_metadata =
                        join_citation_metadatas
                          (cand_citation_metadata a # map cand_citation_metadata B)\<rparr>))"
    by (simp add: join_candidates_def idx cong: sum.case_cong)
  have right: "join_candidates (A @ B) =
      (if \<not> list_all (\<lambda>c. index c = index c0) B then Inl AssertionError
       else (case join_contents (map cand_content A @ map cand_content B) of
               Inl e \<Rightarrow> Inl e
             | Inr joined \<Rightarrow>
                 Inr \<lparr>index = index c0,
                      cand_content = joined,
                      finish_reason = finish_reason (last (A @ B)),
                      safety_ratings =
                        join_safety_ratings_lists (map safety_ratings A @ map safety_ratings B),
                      cand_citation_metadata =
                        join_citation_metadatas
                          (map cand_citation_metadata A @ map cand_citation_metadata B)\<rparr>))"
  proof -
    have "A @ B = c0 # (A' @ B)" by (simp add: A)
    then show ?thesis
      using same by (simp add: join_candidates_def A cong: sum.case_cong)
  qed
  show ?thesis unfolding left right cont fin saf cit ..
qed

lemma filter_distinct_key:
  "distinct (map f xs) \<Longrightarrow> x \<in> set xs \<Longrightarrow> filter (\<lambda>y. f y = f x) xs = [x]"
proof (induction xs)
  case Nil
  then show ?case by simp
next
  case (Cons y ys)
  show ?case
  proof (cases "x = y")
    case True
    from Cons.prems(1) have "f y \<notin> f ` set ys" by simp
    then have "\<forall>z\<in>set ys. f z \<noteq> f y" by (metis imageI)
    then have "filter (\<lambda>z. f z = f y) ys = []" by (simp add: filter_empty_conv)
    with True show ?thesis by simp
  next
    case False
    with Cons.prems(2) have x: "x \<in> set ys" by simp
    from Cons.prems(1) have "f y \<notin> f ` set ys" by simp
    with x have "f y \<noteq> f x" by (metis imageI)
    with x Cons.IH Cons.prems(1) show ?thesis by simp
  qed
qed

lemma join_candidate_lists_absorb:
  assumes "join_candidate_lists Ls = Inr R"
  shows "join_candidate_lists [R, B] = join_candidate_lists (Ls @ [B])"
proof -
  define all where "all = concat Ls"
  note R = join_candidate_lists_Inr [OF assms, folded all_def]
  have dist: "distinct (map index R)" by (simp add: R(1))
  have "set (map index R) = index ` set all" by (simp add: R(1))
  then have sets: "index ` set R = index ` set all" by simp
  then have keys: "index ` set (R @ B) = index ` set (all @ B)" by (simp add: image_Un)
  have each: "join_candidates (filter (\<lambda>c. index c = i) (R @ B))
      = join_candidates (filter (\<lambda>c. index c = i) (all @ B))" for i
  proof (cases "i \<in> index ` set R")
    case True
    then obtain c where c: "c \<in> set R" "i = index c" by auto
    have one: "filter (\<lambda>y. index y = index c) R = [c]"
      using dist c(1) by (rule filter_distinct_key)
    have "join_candidates (filter (\<lambda>x. index x = index c) all) = Inr c"
      using R(2) c(1) by blast
    then have "join_candidates (c # filter (\<lambda>x. index x = index c) B)
        = join_candidates (filter (\<lambda>x. index x = index c) all @ filter (\<lambda>x. index x = index c) B)"
      by (rule join_candidates_absorb)
    then show ?thesis by (simp add: c(2) one)
  next
    case False
    then have "\<forall>x\<in>set R. index x \<noteq> i" by auto
    then have r: "filter (\<lambda>c. index c = i) R = []" by (simp add: filter_empty_conv)
    from False sets have "\<forall>x\<in>set all. index x \<noteq> i" by auto
    then have "filter (\<lambda>c. index c = i) all = []" by (simp add: filter_empty_conv)
    with r show ?thesis by simp
  qed
  have "join_candidate_lists [R, B]
      = join_groups (map (\<lambda>i. filter (\<lambda>c. index c = i) (R @ B))
          (sorted_list_of_set (index ` set (R @ B))))"
    using join_candidate_lists_keyed [of "[R, B]"] by simp
  also have "\<dots> = join_groups (map (\<lambda>i. filter (\<lambda>c. index c = i) (all @ B))
          (sorted_list_of_set (index ` set (R @ B))))"
    by (rule join_groups_cong) (rule each)
  also have "\<dots> = join_groups (map (\<lambda>i. filter (\<lambda>c. index c = i) (all @ B))
          (sorted_list_of_set (index ` set (all @ B))))"
    unfolding keys ..
  also have "\<dots> = join_candidate_lists (Ls @ [B])"
    using join_candidate_lists_keyed [of "Ls @ [B]"] by (simp add: all_def)
  finally show ?thesis .
qed

lemma join_chunks_absorb:
  assumes "join_chunks ms = Inr r"
  shows "join_chunks [r, m] = join_chunks (ms @ [m])"
proof -
  note facts = join_chunks_Inr [OF assms]
  have "join_candidate_lists [candidates r, candidates m]
      = join_candidate_lists (map candidates ms @ [candidates m])"
    using facts(1) by (rule join_candidate_lists_absorb)
  moreover from facts(2) obtain m0 ms' where "ms = m0 # ms'" by (cases ms) auto
  ultimately show ?thesis
    using facts(3) by (simp add: join_chunks_def join_prompt_feedbacks_def cong: sum.case_cong)
qed

lemma accumulate_join_chunks:
  "join_chunks ps = Inr r \<Longrightarrow> accumulate r ms = Inr r' \<Longrightarrow> join_chunks (ps @ ms) = Inr r'"
proof (induction ms arbitrary: ps r)
  case Nil
  then show ?case by simp
next
  case (Cons m ms)
  from Cons.prems(2) obtain j where j: "join_chunks [r, m] = Inr j" and acc: "accumulate j ms = Inr r'"
    by (auto split: sum.splits)
  from j have "join_chunks (ps @ [m]) = Inr j"
    using join_chunks_absorb [OF Cons.prems(1), of m] by simp
  from Cons.IH [OF this acc] show ?case by simp
qed

lemma accumulate_is_join_chunks:
  assumes "accumulate m (m' # ms) = Inr r"
  shows "join_chunks (m # m' # ms) = Inr r"
proof -
  from assms obtain j where j: "join_chunks [m, m'] = Inr j" and acc: "accumulate j ms = Inr r"
    by (auto split: sum.splits)
  from accumulate_join_chunks [OF j acc] show ?thesis by simp
qed

section \<open>Properties of the streaming response\<close>

subsection \<open>Construction\<close>

text \<open>
  C9, as the claim states it, fails: \<^verbatim>\<open>from_iterator\<close> calls \<^verbatim>\<open>next\<close> outside any
  \<^verbatim>\<open>try\<close>, so a producer that is exhausted or fails at the first pull makes the
  constructor raise, and no response is returned.
\<close>

theorem from_iterator_first_pull_raises:
  "from_iterator \<lparr>pending = [], pulled = 0\<rparr> = Inl StopIteration
   \<and> from_iterator \<lparr>pending = [Inl (UpstreamError ''unavailable'')], pulled = 0\<rparr>
       = Inl (UpstreamError ''unavailable'')"
  by (simp add: from_iterator_def next_item_def)

text \<open>
  C9, amended: \<^verbatim>\<open>from_iterator\<close> pulls exactly one item. When the pull gives a message
  the constructor returns a response that is not done, buffers that one message and has it
  as its result, with the blocked-prompt error latched when the message carries a block
  reason; when the pull signals exhaustion or fails, the constructor raises that
  exception.
\<close>

theorem from_iterator_pulls_one:
  "(pending it = Inr m # rest \<longrightarrow>
      from_iterator it =
        Inr \<lparr>r_done = False,
             r_iterator = Some \<lparr>pending = rest, pulled = pulled it + 1\<rparr>,
             r_result = m,
             r_chunks = [m],
             r_error = (if block_reason (chunk_prompt_feedback m) \<noteq> 0
                        then Some (BlockedPromptException m) else None)\<rparr>)
   \<and> (pending it = Inl e # rest \<longrightarrow> from_iterator it = Inl e)
   \<and> (pending it = [] \<longrightarrow> from_iterator it = Inl StopIteration)"
  by (simp add: from_iterator_def next_item_def init_def)

theorem from_iterator_pulls_one_witness:
  "from_iterator
     \<lparr>pending = [Inr \<lparr>candidates = [],
                        chunk_prompt_feedback = \<lparr>block_reason = 0, feedback_safety_ratings = []\<rparr>\<rparr>,
                   Inl (UpstreamError ''unavailable'')],
      pulled = 0\<rparr>
   = Inr \<lparr>r_done = False,
          r_iterator = Some \<lparr>pending = [Inl (UpstreamError ''unavailable'')], pulled = 1\<rparr>,
          r_result = \<lparr>candidates = [],
                       chunk_prompt_feedback = \<lparr>block_reason = 0, feedback_safety_ratings = []\<rparr>\<rparr>,
          r_chunks = [\<lparr>candidates = [],
                       chunk_prompt_feedback = \<lparr>block_reason = 0, feedback_safety_ratings = []\<rparr>\<rparr>],
          r_error = None\<rparr>"
  using from_iterator_pulls_one
    [of "\<lparr>pending = [Inr \<lparr>candidates = [],
                        chunk_prompt_feedback = \<lparr>block_reason = 0, feedback_safety_ratings = []\<rparr>\<rparr>,
                   Inl (UpstreamError ''unavailable'')],
      pulled = 0\<rparr>"
        "\<lparr>candidates = [],
                        chunk_prompt_feedback = \<lparr>block_reason = 0, feedback_safety_ratings = []\<rparr>\<rparr>"
        "[Inl (UpstreamError ''unavailable'')]"]
  by simp

subsection \<open>The quick accessor for the parts\<close>

text \<open>
  C8, as the claim states it, fails: \<^verbatim>\<open>parts\<close> has no check for a sole candidate
  without parts, and returns its empty list of parts.
\<close>

theorem parts_of_sole_candidate_without_parts:
  "parts_of (from_response
     \<lparr>candidates = [\<lparr>index = 0, cand_content = \<lparr>role = ''model'', parts = []\<rparr>,
                      finish_reason = 1, safety_ratings = [],
                      cand_citation_metadata = \<lparr>citation_sources = []\<rparr>\<rparr>],
      chunk_prompt_feedback = \<lparr>block_reason = 0, feedback_safety_ratings = []\<rparr>\<rparr>) = Inr []"
  by (simp add: parts_of_def candidates_of_def from_response_def init_def)

text \<open>
  C8, amended: when the response is done, \<^verbatim>\<open>parts\<close> raises in exactly two shapes, no
  candidate in the result and more than one candidate, each time a \<^verbatim>\<open>ValueError\<close>;
  with a sole candidate it returns that candidate's parts, whether or not there are any.
\<close>

theorem parts_of_done:
  assumes "r_done s"
  shows "((\<exists>e. parts_of s = Inl e) \<longleftrightarrow> length (candidates (r_result s)) \<noteq> 1)
         \<and> (candidates (r_result s) = [] \<longrightarrow> parts_of s = Inl (ValueError parts_none_message))
         \<and> (length (candidates (r_result s)) > 1 \<longrightarrow>
              parts_of s = Inl (ValueError parts_many_message))
         \<and> (\<forall>c. candidates (r_result s) = [c] \<longrightarrow> parts_of s = Inr (parts (cand_content c)))"
  using assms by (cases "candidates (r_result s)") (auto simp: parts_of_def candidates_of_def)

theorem parts_of_done_witness:
  "parts_of (from_response
     \<lparr>candidates = [\<lparr>index = 0, cand_content = \<lparr>role = ''model'', parts = [TextPart ''OK'']\<rparr>,
                      finish_reason = 1, safety_ratings = [],
                      cand_citation_metadata = \<lparr>citation_sources = []\<rparr>\<rparr>],
      chunk_prompt_feedback = \<lparr>block_reason = 0, feedback_safety_ratings = []\<rparr>\<rparr>)
   = Inr [TextPart ''OK'']"
  using parts_of_done [of "from_response
     \<lparr>candidates = [\<lparr>index = 0, cand_content = \<lparr>role = ''model'', parts = [TextPart ''OK'']\<rparr>,
                      finish_reason = 1, safety_ratings = [],
                      cand_citation_metadata = \<lparr>citation_sources = []\<rparr>\<rparr>],
      chunk_prompt_feedback = \<lparr>block_reason = 0, feedback_safety_ratings = []\<rparr>\<rparr>"]
  by (simp add: from_response_def init_def)

subsection \<open>The loop of the iteration\<close>

lemma iter_loop_raise:
  "r_error s = Some e \<Longrightarrow> iter_loop n s = ([], Some e, s)"
  by (subst iter_loop.simps) (simp add: iter_step_def)

lemma iter_loop_return:
  "r_error s = None \<Longrightarrow> r_done s \<Longrightarrow> length (r_chunks s) \<le> Suc n \<Longrightarrow>
   iter_loop n s = ([], None, s)"
  by (subst iter_loop.simps) (simp add: iter_step_def)

lemma iter_loop_replay:
  "r_error s = None \<Longrightarrow> Suc n < length (r_chunks s) \<Longrightarrow>
   iter_loop n s =
     (case iter_loop (Suc n) s of
        (items, ending, s') \<Rightarrow> (from_response (r_chunks s ! n) # items, ending, s'))"
  by (subst iter_loop.simps) (simp add: iter_step_def yield_item_def)

lemma iter_loop_pull_item:
  assumes "r_error s = None" and "\<not> r_done s" and "length (r_chunks s) = Suc n"
    and "r_iterator s = Some it" and "pending it = Inr item # rest"
    and "join_chunks [r_result s, item] = Inr joined"
  shows "iter_loop n s =
     (case iter_loop (Suc n)
             (s\<lparr>r_iterator := Some \<lparr>pending = rest, pulled = pulled it + 1\<rparr>,
                r_chunks := r_chunks s @ [item], r_result := joined\<rparr>) of
        (items, ending, s') \<Rightarrow> (from_response (last (r_chunks s)) # items, ending, s'))"
proof -
  have "r_chunks s \<noteq> []" using assms(3) by auto
  then have "last (r_chunks s) = r_chunks s ! n"
    using assms(3) by (simp add: last_conv_nth)
  then show ?thesis
    using assms
    by (subst iter_loop.simps)
       (simp add: iter_step_def lookahead_def pull_def next_item_def yield_item_def nth_append)
qed

lemma iter_loop_pull_merge_error:
  assumes "r_error s = None" and "\<not> r_done s" and "length (r_chunks s) = Suc n"
    and "r_iterator s = Some it" and "pending it = Inr item # rest"
    and "join_chunks [r_result s, item] = Inl e"
  shows "iter_loop n s =
     ([], Some e, s\<lparr>r_iterator := Some \<lparr>pending = rest, pulled = pulled it + 1\<rparr>,
                     r_chunks := r_chunks s @ [item]\<rparr>)"
  using assms
  by (subst iter_loop.simps) (simp add: iter_step_def lookahead_def pull_def next_item_def)

lemma iter_loop_pull_end:
  assumes "r_error s = None" and "\<not> r_done s" and "length (r_chunks s) = Suc n"
    and "r_iterator s = Some it" and "next_item it = (Inl e, it')"
    and "e = StopIteration \<or> is_Exception e"
  shows "iter_loop n s =
     ([from_response (last (r_chunks s))],
      (if e = StopIteration then None else Some e),
      s\<lparr>r_iterator := Some it', r_done := True,
        r_error := (if e = StopIteration then None else Some e)\<rparr>)"
proof -
  have "r_chunks s \<noteq> []" using assms(3) by auto
  then have l: "last (r_chunks s) = r_chunks s ! n"
    using assms(3) by (simp add: last_conv_nth)
  show ?thesis
  proof (cases "e = StopIteration")
    case True
    let ?s' = "s\<lparr>r_iterator := Some it', r_done := True\<rparr>"
    have "iter_loop (Suc n) ?s' = ([], None, ?s')"
      using assms by (intro iter_loop_return) simp_all
    moreover have "?s' = s\<lparr>r_iterator := Some it', r_done := True, r_error := None\<rparr>"
      using assms(1) by simp
    ultimately show ?thesis
      using assms True l
      by (subst iter_loop.simps)
         (simp add: iter_step_def lookahead_def pull_def yield_item_def)
  next
    case False
    let ?s' = "s\<lparr>r_iterator := Some it', r_error := Some e, r_done := True\<rparr>"
    have "iter_loop (Suc n) ?s' = ([], Some e, ?s')"
      by (intro iter_loop_raise) simp
    then show ?thesis
      using assms False l
      by (subst iter_loop.simps)
         (simp add: iter_step_def lookahead_def pull_def yield_item_def)
  qed
qed

lemma iter_loop_drain:
  assumes "r_error s = None" and "\<not> r_done s" and "length (r_chunks s) = Suc n"
    and "r_iterator s = Some \<lparr>pending = map Inr ms @ rest, pulled = k\<rparr>"
    and "accumulate (r_result s) ms = Inr r"
    and "next_item \<lparr>pending = rest, pulled = k + length ms\<rparr> = (Inl e, it')"
    and "e = StopIteration \<or> is_Exception e"
  shows "iter_loop n s =
     (map from_response (last (r_chunks s) # ms),
      (if e = StopIteration then None else Some e),
      s\<lparr>r_iterator := Some it', r_done := True, r_chunks := r_chunks s @ ms, r_result := r,
        r_error := (if e = StopIteration then None else Some e)\<rparr>)"
  using assms
proof (induction ms arbitrary: s n k)
  case Nil
  from Nil.prems(5) have r: "r = r_result s" by simp
  have "iter_loop n s =
     ([from_response (last (r_chunks s))],
      (if e = StopIteration then None else Some e),
      s\<lparr>r_iterator := Some it', r_done := True,
        r_error := (if e = StopIteration then None else Some e)\<rparr>)"
    using Nil.prems by (intro iter_loop_pull_end) simp_all
  then show ?case by (simp add: r)
next
  case (Cons m ms)
  from Cons.prems(5) obtain joined where j: "join_chunks [r_result s, m] = Inr joined"
    and acc: "accumulate joined ms = Inr r"
    by (auto split: sum.splits)
  let ?s1 = "s\<lparr>r_iterator := Some \<lparr>pending = map Inr ms @ rest, pulled = k + 1\<rparr>,
               r_chunks := r_chunks s @ [m], r_result := joined\<rparr>"
  have step: "iter_loop n s =
     (case iter_loop (Suc n) ?s1 of
        (items, ending, s') \<Rightarrow> (from_response (last (r_chunks s)) # items, ending, s'))"
    using Cons.prems(1-4) j
      iter_loop_pull_item [of s n "\<lparr>pending = map Inr (m # ms) @ rest, pulled = k\<rparr>" m
        "map Inr ms @ rest" joined]
    by simp
  have "iter_loop (Suc n) ?s1 =
     (map from_response (last (r_chunks ?s1) # ms),
      (if e = StopIteration then None else Some e),
      ?s1\<lparr>r_iterator := Some it', r_done := True, r_chunks := r_chunks ?s1 @ ms, r_result := r,
        r_error := (if e = StopIteration then None else Some e)\<rparr>)"
    using Cons.prems(1-3,6,7) acc by (intro Cons.IH [where k = "k + 1"]) simp_all
  with step show ?case by simp
qed

lemma iter_loop_pull_interrupt:
  assumes "r_error s = None" and "\<not> r_done s" and "length (r_chunks s) = Suc n"
    and "r_iterator s = Some it" and "next_item it = (Inl e, it')"
    and "e \<noteq> StopIteration" and "\<not> is_Exception e"
  shows "iter_loop n s = ([], Some e, s\<lparr>r_iterator := Some it'\<rparr>)"
  using assms
  by (subst iter_loop.simps) (simp add: iter_step_def lookahead_def pull_def)

lemma iter_loop_drain_interrupt:
  assumes "r_error s = None" and "\<not> r_done s" and "length (r_chunks s) = Suc n"
    and "r_iterator s = Some \<lparr>pending = map Inr ms @ rest, pulled = k\<rparr>"
    and "accumulate (r_result s) ms = Inr r"
    and "next_item \<lparr>pending = rest, pulled = k + length ms\<rparr> = (Inl e, it')"
    and "e \<noteq> StopIteration" and "\<not> is_Exception e"
  shows "iter_loop n s =
     (map from_response (butlast (last (r_chunks s) # ms)),
      Some e,
      s\<lparr>r_iterator := Some it', r_chunks := r_chunks s @ ms, r_result := r\<rparr>)"
  using assms
proof (induction ms arbitrary: s n k)
  case Nil
  from Nil.prems(5) have r: "r = r_result s" by simp
  have "iter_loop n s = ([], Some e, s\<lparr>r_iterator := Some it'\<rparr>)"
    using Nil.prems by (intro iter_loop_pull_interrupt) simp_all
  then show ?case by (simp add: r)
next
  case (Cons m ms)
  from Cons.prems(5) obtain joined where j: "join_chunks [r_result s, m] = Inr joined"
    and acc: "accumulate joined ms = Inr r"
    by (auto split: sum.splits)
  let ?s1 = "s\<lparr>r_iterator := Some \<lparr>pending = map Inr ms @ rest, pulled = k + 1\<rparr>,
               r_chunks := r_chunks s @ [m], r_result := joined\<rparr>"
  have step: "iter_loop n s =
     (case iter_loop (Suc n) ?s1 of
        (items, ending, s') \<Rightarrow> (from_response (last (r_chunks s)) # items, ending, s'))"
    using Cons.prems(1-4) j
      iter_loop_pull_item [of s n "\<lparr>pending = map Inr (m # ms) @ rest, pulled = k\<rparr>" m
        "map Inr ms @ rest" joined]
    by simp
  have "iter_loop (Suc n) ?s1 =
     (map from_response (butlast (last (r_chunks ?s1) # ms)),
      Some e,
      ?s1\<lparr>r_iterator := Some it', r_chunks := r_chunks ?s1 @ ms, r_result := r\<rparr>)"
    using Cons.prems(1-3,6-8) acc by (intro Cons.IH [where k = "k + 1"]) simp_all
  with step show ?case by simp
qed

lemma iter_loop_merge_fails:
  assumes "r_error s = None" and "\<not> r_done s" and "length (r_chunks s) = Suc n"
    and "r_iterator s = Some \<lparr>pending = map Inr ms @ rest, pulled = k\<rparr>"
    and "accumulate (r_result s) ms = Inl e"
  shows "\<exists>items s'. iter_loop n s = (items, Some e, s') \<and> \<not> r_done s'"
  using assms
proof (induction ms arbitrary: s n k)
  case Nil
  then show ?case by simp
next
  case (Cons m ms)
  show ?case
  proof (cases "join_chunks [r_result s, m]")
    case (Inl e')
    with Cons.prems(5) have "e' = e" by simp
    with Inl Cons.prems(1-4) show ?thesis
      using iter_loop_pull_merge_error
        [of s n "\<lparr>pending = map Inr (m # ms) @ rest, pulled = k\<rparr>" m "map Inr ms @ rest" e]
      by simp
  next
    case (Inr joined)
    with Cons.prems(5) have acc: "accumulate joined ms = Inl e" by simp
    let ?s1 = "s\<lparr>r_iterator := Some \<lparr>pending = map Inr ms @ rest, pulled = k + 1\<rparr>,
                 r_chunks := r_chunks s @ [m], r_result := joined\<rparr>"
    have step: "iter_loop n s =
       (case iter_loop (Suc n) ?s1 of
          (items, ending, s') \<Rightarrow> (from_response (last (r_chunks s)) # items, ending, s'))"
      using Cons.prems(1-4) Inr
        iter_loop_pull_item [of s n "\<lparr>pending = map Inr (m # ms) @ rest, pulled = k\<rparr>" m
          "map Inr ms @ rest" joined]
      by simp
    have "\<exists>items s'. iter_loop (Suc n) ?s1 = (items, Some e, s') \<and> \<not> r_done s'"
      using Cons.prems(1-3) acc by (intro Cons.IH [where k = "k + 1"]) simp_all
    with step show ?thesis by auto
  qed
qed

subsection \<open>A blocked prompt\<close>

text \<open>
  C6, as the claim states it, fails: a response built by \<^verbatim>\<open>from_response\<close> from a
  message with a block reason latches the exception, but it is done, and \<^verbatim>\<open>__iter__\<close>
  replays its chunk without looking at the latched exception.
\<close>

theorem iter_blocked_from_response_yields:
  "r_error (from_response
      \<lparr>candidates = [],
       chunk_prompt_feedback = \<lparr>block_reason = 1, feedback_safety_ratings = []\<rparr>\<rparr>)
     = Some (BlockedPromptException
         \<lparr>candidates = [],
          chunk_prompt_feedback = \<lparr>block_reason = 1, feedback_safety_ratings = []\<rparr>\<rparr>)
   \<and> iter (from_response
      \<lparr>candidates = [],
       chunk_prompt_feedback = \<lparr>block_reason = 1, feedback_safety_ratings = []\<rparr>\<rparr>)
     = ([from_response
          \<lparr>candidates = [],
           chunk_prompt_feedback = \<lparr>block_reason = 1, feedback_safety_ratings = []\<rparr>\<rparr>],
        None,
        from_response
          \<lparr>candidates = [],
           chunk_prompt_feedback = \<lparr>block_reason = 1, feedback_safety_ratings = []\<rparr>\<rparr>)"
  by (simp add: iter_def from_response_def init_def)

text \<open>
  C6, amended: let the first message \<open>m\<close> carry a block reason. A response built from
  a producer by \<^verbatim>\<open>from_iterator\<close> latches a \<^verbatim>\<open>BlockedPromptException\<close> at construction;
  every attempt to iterate it, and \<^verbatim>\<open>resolve\<close>, raises that exception before any item
  is yielded and leaves the response as it was, so the next attempt does the same. A
  response built by \<^verbatim>\<open>from_response\<close> latches the exception too, but iterating it
  yields its one item and raises nothing. Either response gives the feedback of \<open>m\<close>,
  block reason included, as its prompt feedback, in every state it reaches.
\<close>

theorem iter_blocked:
  assumes "block_reason (chunk_prompt_feedback m) \<noteq> 0" and "pending it = Inr m # rest"
  shows "\<exists>s. from_iterator it = Inr s
           \<and> r_error s = Some (BlockedPromptException m)
           \<and> iter s = ([], Some (BlockedPromptException m), s)
           \<and> resolve s = (Some (BlockedPromptException m), s)
           \<and> (\<forall>k. iter (((\<lambda>s. snd (snd (iter s))) ^^ k) s)
                      = ([], Some (BlockedPromptException m), s))
           \<and> prompt_feedback_of s = chunk_prompt_feedback m
           \<and> r_error (from_response m) = Some (BlockedPromptException m)
           \<and> iter (from_response m) = ([from_response m], None, from_response m)
           \<and> prompt_feedback_of (from_response m) = chunk_prompt_feedback m"
proof -
  define s where "s = init False (Some \<lparr>pending = rest, pulled = pulled it + 1\<rparr>) m [m]"
  let ?e = "BlockedPromptException m"
  have built: "from_iterator it = Inr s"
    using assms(2) by (simp add: s_def from_iterator_def next_item_def)
  have err: "r_error s = Some ?e" and nd: "\<not> r_done s" and ch: "r_chunks s = [m]"
    and res: "r_result s = m"
    using assms(1) by (simp_all add: s_def init_def)
  have "iter s = iter_loop 0 s" by (simp add: iter_def nd ch)
  with err have it: "iter s = ([], Some ?e, s)" by (simp add: iter_loop_raise)
  then have rs: "resolve s = (Some ?e, s)" by (simp add: resolve_def nd)
  have same: "((\<lambda>s. snd (snd (iter s))) ^^ k) s = s" for k
    by (induction k) (simp_all add: it)
  have again: "\<forall>k. iter (((\<lambda>s. snd (snd (iter s))) ^^ k) s) = ([], Some ?e, s)"
    by (simp add: same it)
  have fb: "prompt_feedback_of s = chunk_prompt_feedback m"
    by (simp add: prompt_feedback_of_def res)
  have done_one: "r_error (from_response m) = Some ?e
      \<and> iter (from_response m) = ([from_response m], None, from_response m)
      \<and> prompt_feedback_of (from_response m) = chunk_prompt_feedback m"
    using assms(1) by (simp add: iter_def from_response_def init_def prompt_feedback_of_def)
  from built err it rs again fb done_one show ?thesis by blast
qed

theorem iter_blocked_witness:
  "\<exists>s. from_iterator
          \<lparr>pending = [Inr \<lparr>candidates = [],
                             chunk_prompt_feedback =
                               \<lparr>block_reason = 1, feedback_safety_ratings = []\<rparr>\<rparr>],
           pulled = 0\<rparr> = Inr s
       \<and> iter s = ([], Some (BlockedPromptException
                       \<lparr>candidates = [],
                        chunk_prompt_feedback =
                          \<lparr>block_reason = 1, feedback_safety_ratings = []\<rparr>\<rparr>), s)
       \<and> block_reason (prompt_feedback_of s) = 1"
proof -
  let ?m = "\<lparr>candidates = [],
             chunk_prompt_feedback = \<lparr>block_reason = 1, feedback_safety_ratings = []\<rparr>\<rparr>"
  have "block_reason (chunk_prompt_feedback ?m) \<noteq> 0" by simp
  from iter_blocked [OF this, of "\<lparr>pending = [Inr ?m], pulled = 0\<rparr>" "[]"]
  obtain s where "from_iterator \<lparr>pending = [Inr ?m], pulled = 0\<rparr> = Inr s"
    and "iter s = ([], Some (BlockedPromptException ?m), s)"
    and "prompt_feedback_of s = chunk_prompt_feedback ?m"
    by auto
  then show ?thesis by auto
qed

subsection \<open>Draining a response built from a producer\<close>

lemma from_iterator_Inr:
  assumes "pending it = Inr m # rest"
  shows "from_iterator it = Inr (init False (Some \<lparr>pending = rest, pulled = pulled it + 1\<rparr>) m [m])"
  using assms by (simp add: from_iterator_def next_item_def)

lemma iter_done: "r_done s \<Longrightarrow> iter s = (map from_response (r_chunks s), None, s)"
  by (simp add: iter_def)

lemma iter_not_done:
  "\<not> r_done s \<Longrightarrow> r_chunks s \<noteq> [] \<Longrightarrow> iter s = iter_loop 0 s"
  by (simp add: iter_def)

lemma iter_first_pass:
  assumes "block_reason (chunk_prompt_feedback m) = 0"
    and "accumulate m ms = Inr r"
    and "next_item \<lparr>pending = rest, pulled = k + length ms\<rparr> = (Inl e, it')"
    and "e = StopIteration \<or> is_Exception e"
  shows "iter (init False (Some \<lparr>pending = map Inr ms @ rest, pulled = k\<rparr>) m [m]) =
     (map from_response (m # ms),
      (if e = StopIteration then None else Some e),
      \<lparr>r_done = True, r_iterator = Some it', r_result = r, r_chunks = m # ms,
       r_error = (if e = StopIteration then None else Some e)\<rparr>)"
proof -
  let ?s = "init False (Some \<lparr>pending = map Inr ms @ rest, pulled = k\<rparr>) m [m]"
  have "iter ?s = iter_loop 0 ?s"
    by (rule iter_not_done) (simp_all add: init_def)
  also have "\<dots> =
     (map from_response (last (r_chunks ?s) # ms),
      (if e = StopIteration then None else Some e),
      ?s\<lparr>r_iterator := Some it', r_done := True, r_chunks := r_chunks ?s @ ms, r_result := r,
        r_error := (if e = StopIteration then None else Some e)\<rparr>)"
    using assms by (intro iter_loop_drain [where rest = rest and k = k]) (simp_all add: init_def)
  finally show ?thesis by (simp add: init_def)
qed

subsection \<open>A producer that fails\<close>

text \<open>
  C7, as the claim states it, fails: after a pull has raised, the response is done, and
  neither \<^verbatim>\<open>__iter__\<close> nor \<^verbatim>\<open>resolve\<close> raises the stored exception again. Here the
  producer gives one message and then fails; the first pass yields the message and
  raises, the second pass yields it and returns.
\<close>

theorem iter_after_failure_returns:
  "from_iterator
     \<lparr>pending = [Inr \<lparr>candidates = [],
                        chunk_prompt_feedback = \<lparr>block_reason = 0, feedback_safety_ratings = []\<rparr>\<rparr>,
                   Inl (UpstreamError ''unavailable'')],
      pulled = 0\<rparr>
     = Inr (init False (Some \<lparr>pending = [Inl (UpstreamError ''unavailable'')], pulled = 1\<rparr>)
              \<lparr>candidates = [],
               chunk_prompt_feedback = \<lparr>block_reason = 0, feedback_safety_ratings = []\<rparr>\<rparr>
              [\<lparr>candidates = [],
                chunk_prompt_feedback = \<lparr>block_reason = 0, feedback_safety_ratings = []\<rparr>\<rparr>])
   \<and> iter (init False (Some \<lparr>pending = [Inl (UpstreamError ''unavailable'')], pulled = 1\<rparr>)
              \<lparr>candidates = [],
               chunk_prompt_feedback = \<lparr>block_reason = 0, feedback_safety_ratings = []\<rparr>\<rparr>
              [\<lparr>candidates = [],
                chunk_prompt_feedback = \<lparr>block_reason = 0, feedback_safety_ratings = []\<rparr>\<rparr>])
     = ([from_response
           \<lparr>candidates = [],
            chunk_prompt_feedback = \<lparr>block_reason = 0, feedback_safety_ratings = []\<rparr>\<rparr>],
        Some (UpstreamError ''unavailable''),
        \<lparr>r_done = True, r_iterator = Some \<lparr>pending = [], pulled = 2\<rparr>,
         r_result = \<lparr>candidates = [],
                      chunk_prompt_feedback = \<lparr>block_reason = 0, feedback_safety_ratings = []\<rparr>\<rparr>,
         r_chunks = [\<lparr>candidates = [],
                      chunk_prompt_feedback = \<lparr>block_reason = 0, feedback_safety_ratings = []\<rparr>\<rparr>],
         r_error = Some (UpstreamError ''unavailable'')\<rparr>)
   \<and> iter \<lparr>r_done = True, r_iterator = Some \<lparr>pending = [], pulled = 2\<rparr>,
         r_result = \<lparr>candidates = [],
                      chunk_prompt_feedback = \<lparr>block_reason = 0, feedback_safety_ratings = []\<rparr>\<rparr>,
         r_chunks = [\<lparr>candidates = [],
                      chunk_prompt_feedback = \<lparr>block_reason = 0, feedback_safety_ratings = []\<rparr>\<rparr>],
         r_error = Some (UpstreamError ''unavailable'')\<rparr>
     = ([from_response
           \<lparr>candidates = [],
            chunk_prompt_feedback = \<lparr>block_reason = 0, feedback_safety_ratings = []\<rparr>\<rparr>],
        None,
        \<lparr>r_done = True, r_iterator = Some \<lparr>pending = [], pulled = 2\<rparr>,
         r_result = \<lparr>candidates = [],
                      chunk_prompt_feedback = \<lparr>block_reason = 0, feedback_safety_ratings = []\<rparr>\<rparr>,
         r_chunks = [\<lparr>candidates = [],
                      chunk_prompt_feedback = \<lparr>block_reason = 0, feedback_safety_ratings = []\<rparr>\<rparr>],
         r_error = Some (UpstreamError ''unavailable'')\<rparr>)
   \<and> resolve \<lparr>r_done = True, r_iterator = Some \<lparr>pending = [], pulled = 2\<rparr>,
         r_result = \<lparr>candidates = [],
                      chunk_prompt_feedback = \<lparr>block_reason = 0, feedback_safety_ratings = []\<rparr>\<rparr>,
         r_chunks = [\<lparr>candidates = [],
                      chunk_prompt_feedback = \<lparr>block_reason = 0, feedback_safety_ratings = []\<rparr>\<rparr>],
         r_error = Some (UpstreamError ''unavailable'')\<rparr>
     = (None,
        \<lparr>r_done = True, r_iterator = Some \<lparr>pending = [], pulled = 2\<rparr>,
         r_result = \<lparr>candidates = [],
                      chunk_prompt_feedback = \<lparr>block_reason = 0, feedback_safety_ratings = []\<rparr>\<rparr>,
         r_chunks = [\<lparr>candidates = [],
                      chunk_prompt_feedback = \<lparr>block_reason = 0, feedback_safety_ratings = []\<rparr>\<rparr>],
         r_error = Some (UpstreamError ''unavailable'')\<rparr>)"
  (is "from_iterator ?it = Inr ?s0 \<and> iter ?s0 = (?items, ?raised, ?s1)
       \<and> iter ?s1 = (?items, None, ?s1) \<and> resolve ?s1 = (None, ?s1)")
proof -
  let ?m = "\<lparr>candidates = [],
             chunk_prompt_feedback = \<lparr>block_reason = 0, feedback_safety_ratings = []\<rparr>\<rparr>"
  have built: "from_iterator ?it = Inr ?s0"
    using from_iterator_Inr [of ?it ?m "[Inl (UpstreamError ''unavailable'')]"] by simp
  have pass1: "iter ?s0 = (?items, ?raised, ?s1)"
    using iter_first_pass [of ?m "[]" ?m "[Inl (UpstreamError ''unavailable'')]" 1
        "UpstreamError ''unavailable''" "\<lparr>pending = [], pulled = 2\<rparr>"]
    by (simp add: next_item_def)
  have pass2: "iter ?s1 = (?items, None, ?s1)"
    by (simp add: iter_done)
  have "resolve ?s1 = (None, ?s1)"
    by (simp add: resolve_def)
  with built pass1 pass2 show ?thesis by blast
qed

text \<open>
  C7, amended: let the prompt not be blocked, and let the producer give the messages
  \<open>m # ms\<close>, which merge without an exception, and then raise an exception \<open>e\<close>
  other than \<^verbatim>\<open>StopIteration\<close>. When \<open>e\<close> is of a class under \<^verbatim>\<open>Exception\<close>, the
  pass over the response yields every message and then raises \<open>e\<close> itself to the caller
  (\<^verbatim>\<open>resolve\<close> raises it as well); the response is then done, holds \<open>e\<close> as its error,
  and the candidates merged before the failure are readable. The exception is not raised
  again: every later \<^verbatim>\<open>__iter__\<close> replays the buffered messages and returns, and
  \<^verbatim>\<open>resolve\<close> returns at once. When \<open>e\<close> is not under \<^verbatim>\<open>Exception\<close>, no clause
  catches it: it leaves the pass at the pull, before the last buffered message is yielded;
  nothing is stored, the response is not done, and its accessors still refuse to answer.
  In both cases the response keeps every message pulled and the result merged from them.
\<close>

theorem iter_producer_failure:
  assumes "pending it = map Inr (m # ms) @ Inl e # rest" and "e \<noteq> StopIteration"
    and "block_reason (chunk_prompt_feedback m) = 0" and "accumulate m ms = Inr r"
  shows "\<exists>s0 s1. from_iterator it = Inr s0
           \<and> resolve s0 = (Some e, s1)
           \<and> r_result s1 = r \<and> r_chunks s1 = m # ms
           \<and> (is_Exception e \<longrightarrow>
                 iter s0 = (map from_response (m # ms), Some e, s1)
                 \<and> r_done s1 \<and> r_error s1 = Some e
                 \<and> candidates_of s1 = Inr (candidates r)
                 \<and> iter s1 = (map from_response (m # ms), None, s1)
                 \<and> resolve s1 = (None, s1))
           \<and> (\<not> is_Exception e \<longrightarrow>
                 iter s0 = (map from_response (butlast (m # ms)), Some e, s1)
                 \<and> \<not> r_done s1 \<and> r_error s1 = None
                 \<and> candidates_of s1 = Inl IncompleteIterationError)"
proof -
  define s0 where "s0 = init False (Some \<lparr>pending = map Inr ms @ Inl e # rest, pulled = pulled it + 1\<rparr>) m [m]"
  have built: "from_iterator it = Inr s0"
    unfolding s0_def using assms(1) by (intro from_iterator_Inr) simp
  have nd: "\<not> r_done s0" and ch: "r_chunks s0 = [m]" and res: "r_result s0 = m"
    and err: "r_error s0 = None"
    and its: "r_iterator s0 = Some \<lparr>pending = map Inr ms @ Inl e # rest, pulled = pulled it + 1\<rparr>"
    using assms(3) by (simp_all add: s0_def init_def)
  have pulls: "next_item \<lparr>pending = Inl e # rest, pulled = pulled it + 1 + length ms\<rparr>
      = (Inl e, \<lparr>pending = rest, pulled = pulled it + 1 + length ms + 1\<rparr>)"
    by (simp add: next_item_def)
  show ?thesis
  proof (cases "is_Exception e")
    case True
    define s1 where "s1 = \<lparr>r_done = True,
        r_iterator = Some \<lparr>pending = rest, pulled = pulled it + 1 + length ms + 1\<rparr>,
        r_result = r, r_chunks = m # ms, r_error = Some e\<rparr>"
    have pass1: "iter s0 = (map from_response (m # ms), Some e, s1)"
      unfolding s0_def s1_def
      using iter_first_pass [OF assms(3,4) pulls] assms(2) True by simp
    have res1: "resolve s0 = (Some e, s1)"
      by (simp add: resolve_def nd pass1)
    have fields: "r_done s1" "r_error s1 = Some e" "r_result s1 = r" "r_chunks s1 = m # ms"
      by (simp_all add: s1_def)
    have cands: "candidates_of s1 = Inr (candidates r)"
      by (simp add: candidates_of_def fields)
    have pass2: "iter s1 = (map from_response (m # ms), None, s1)"
      using iter_done [of s1] fields by simp
    have res2: "resolve s1 = (None, s1)"
      by (simp add: resolve_def fields)
    from True built pass1 res1 fields cands pass2 res2 show ?thesis
      by (intro exI [of _ s0] exI [of _ s1]) simp
  next
    case False
    define s1 where "s1 = \<lparr>r_done = False,
        r_iterator = Some \<lparr>pending = rest, pulled = pulled it + 1 + length ms + 1\<rparr>,
        r_result = r, r_chunks = m # ms, r_error = None\<rparr>"
    have "iter s0 = iter_loop 0 s0"
      by (rule iter_not_done) (simp_all add: nd ch)
    also have "\<dots> = (map from_response (butlast (last (r_chunks s0) # ms)), Some e,
        s0\<lparr>r_iterator := Some \<lparr>pending = rest, pulled = pulled it + 1 + length ms + 1\<rparr>,
           r_chunks := r_chunks s0 @ ms, r_result := r\<rparr>)"
      using err nd ch its res assms(2,4) False pulls
      by (intro iter_loop_drain_interrupt [where rest = "Inl e # rest" and k = "pulled it + 1"])
         simp_all
    also have "s0\<lparr>r_iterator := Some \<lparr>pending = rest, pulled = pulled it + 1 + length ms + 1\<rparr>,
           r_chunks := r_chunks s0 @ ms, r_result := r\<rparr> = s1"
      using assms(3) by (simp add: s0_def s1_def init_def)
    finally have pass1: "iter s0 = (map from_response (butlast (m # ms)), Some e, s1)"
      by (simp add: ch)
    have res1: "resolve s0 = (Some e, s1)"
      by (simp add: resolve_def nd pass1)
    have fields: "\<not> r_done s1" "r_error s1 = None" "r_result s1 = r" "r_chunks s1 = m # ms"
      by (simp_all add: s1_def)
    have cands: "candidates_of s1 = Inl IncompleteIterationError"
      by (simp add: candidates_of_def fields)
    from False built pass1 res1 fields cands show ?thesis
      by (intro exI [of _ s0] exI [of _ s1]) simp
  qed
qed

theorem iter_producer_failure_witness:
  "\<exists>s0 s1. from_iterator
       \<lparr>pending = [Inr \<lparr>candidates = [],
                          chunk_prompt_feedback = \<lparr>block_reason = 0, feedback_safety_ratings = []\<rparr>\<rparr>,
                     Inl (UpstreamError ''unavailable'')],
        pulled = 0\<rparr> = Inr s0
     \<and> iter s0 = ([from_response
                      \<lparr>candidates = [],
                       chunk_prompt_feedback = \<lparr>block_reason = 0, feedback_safety_ratings = []\<rparr>\<rparr>],
                   Some (UpstreamError ''unavailable''), s1)
     \<and> r_done s1
     \<and> candidates_of s1 = Inr []
     \<and> resolve s1 = (None, s1)"
proof -
  let ?m = "\<lparr>candidates = [],
             chunk_prompt_feedback = \<lparr>block_reason = 0, feedback_safety_ratings = []\<rparr>\<rparr>"
  let ?it = "\<lparr>pending = [Inr ?m, Inl (UpstreamError ''unavailable'')], pulled = 0\<rparr>"
  from iter_producer_failure [of ?it ?m "[]" "UpstreamError ''unavailable''" "[]" ?m]
  obtain s0 s1 where "from_iterator ?it = Inr s0"
    and "iter s0 = ([from_response ?m], Some (UpstreamError ''unavailable''), s1)"
    and "r_done s1" and "candidates_of s1 = Inr []" and "resolve s1 = (None, s1)"
    by auto
  then show ?thesis
    by (intro exI [of _ s0] exI [of _ s1]) simp
qed

subsection \<open>Iterating twice\<close>

lemma text_chunk_not_blocked: "block_reason (chunk_prompt_feedback (text_chunk r t)) = 0"
  by (simp add: text_chunk_def)

lemma join_chunks_role_clash:
  "r1 \<noteq> r2 \<Longrightarrow> join_chunks [text_chunk r1 t1, text_chunk r2 t2] = Inl AssertionError"
  by (simp add: text_chunk_def join_chunks_def join_candidate_lists_def group_by_index_def
      join_candidates_def join_contents_def)

text \<open>
  C5, as the claim states it, fails: the producer below gives two messages and does not
  fail, but their contents differ in role, so the merge raises while the second message
  is pulled. The first pass yields nothing and raises; the second pass yields both
  messages and pulls the producer once more.
\<close>

theorem iter_twice_differs:
  "from_iterator
     \<lparr>pending = [Inr (text_chunk ''model'' ''a''), Inr (text_chunk ''user'' ''b'')],
      pulled = 0\<rparr>
     = Inr (init False (Some \<lparr>pending = [Inr (text_chunk ''user'' ''b'')], pulled = 1\<rparr>)
              (text_chunk ''model'' ''a'') [text_chunk ''model'' ''a''])
   \<and> iter (init False (Some \<lparr>pending = [Inr (text_chunk ''user'' ''b'')], pulled = 1\<rparr>)
              (text_chunk ''model'' ''a'') [text_chunk ''model'' ''a''])
     = ([], Some AssertionError,
        \<lparr>r_done = False, r_iterator = Some \<lparr>pending = [], pulled = 2\<rparr>,
         r_result = text_chunk ''model'' ''a'',
         r_chunks = [text_chunk ''model'' ''a'', text_chunk ''user'' ''b''],
         r_error = None\<rparr>)
   \<and> iter \<lparr>r_done = False, r_iterator = Some \<lparr>pending = [], pulled = 2\<rparr>,
            r_result = text_chunk ''model'' ''a'',
            r_chunks = [text_chunk ''model'' ''a'', text_chunk ''user'' ''b''],
            r_error = None\<rparr>
     = ([from_response (text_chunk ''model'' ''a''), from_response (text_chunk ''user'' ''b'')],
        None,
        \<lparr>r_done = True, r_iterator = Some \<lparr>pending = [], pulled = 3\<rparr>,
         r_result = text_chunk ''model'' ''a'',
         r_chunks = [text_chunk ''model'' ''a'', text_chunk ''user'' ''b''],
         r_error = None\<rparr>)"
  (is "from_iterator ?it = Inr ?s0 \<and> iter ?s0 = ([], Some AssertionError, ?s1)
       \<and> iter ?s1 = (?items, None, ?s2)")
proof -
  have built: "from_iterator ?it = Inr ?s0"
    using from_iterator_Inr [of ?it "text_chunk ''model'' ''a''" "[Inr (text_chunk ''user'' ''b'')]"]
    by simp
  have clash: "join_chunks [text_chunk ''model'' ''a'', text_chunk ''user'' ''b''] = Inl AssertionError"
    by (rule join_chunks_role_clash) simp
  have "iter ?s0 = iter_loop 0 ?s0"
    by (rule iter_not_done) (simp_all add: init_def)
  then have pass1: "iter ?s0 = ([], Some AssertionError, ?s1)"
    using iter_loop_pull_merge_error
      [of ?s0 0 "\<lparr>pending = [Inr (text_chunk ''user'' ''b'')], pulled = 1\<rparr>"
          "text_chunk ''user'' ''b''" "[]" AssertionError] clash
    by (simp add: init_def text_chunk_not_blocked)
  have "iter ?s1 = iter_loop 0 ?s1"
    by (rule iter_not_done) simp_all
  also have "\<dots> = (case iter_loop (Suc 0) ?s1 of
      (items, ending, s') \<Rightarrow> (from_response (r_chunks ?s1 ! 0) # items, ending, s'))"
    by (rule iter_loop_replay) simp_all
  also have "iter_loop (Suc 0) ?s1 = ([from_response (text_chunk ''user'' ''b'')], None, ?s2)"
    using iter_loop_pull_end
      [of ?s1 "Suc 0" "\<lparr>pending = [], pulled = 2\<rparr>" StopIteration "\<lparr>pending = [], pulled = 3\<rparr>"]
    by (simp add: next_item_def)
  finally have pass2: "iter ?s1 = (?items, None, ?s2)"
    by simp
  from built pass1 pass2 show ?thesis by blast
qed

text \<open>
  C5, amended: let a response be built from a producer that gives the messages \<open>m # ms\<close>
  and then is exhausted, and let the messages merge without an exception (or the prompt be
  blocked). Then two passes of \<^verbatim>\<open>__iter__\<close>, each taken to its end, yield the same items
  and end the same way, and the second pass leaves the response, its producer included,
  as the first pass left it: it pulls nothing. When the prompt is not blocked the items
  are the messages in order, each wrapped by \<^verbatim>\<open>from_response\<close>, and the producer has
  been called once for each message and once more for the end of the sequence. When the
  prompt is blocked both passes yield nothing and raise the blocked-prompt exception,
  and only the pull of the construction has been made.
\<close>

theorem iter_twice:
  assumes "pending it = map Inr (m # ms)"
    and "block_reason (chunk_prompt_feedback m) = 0 \<longrightarrow> accumulate m ms = Inr r"
  shows "\<exists>s0 s1 items ending.
           from_iterator it = Inr s0
           \<and> iter s0 = (items, ending, s1)
           \<and> iter s1 = (items, ending, s1)
           \<and> (block_reason (chunk_prompt_feedback m) = 0 \<longrightarrow>
                items = map from_response (m # ms) \<and> ending = None \<and> r_result s1 = r
                \<and> r_iterator s1 = Some \<lparr>pending = [], pulled = pulled it + length (m # ms) + 1\<rparr>)
           \<and> (block_reason (chunk_prompt_feedback m) \<noteq> 0 \<longrightarrow>
                items = [] \<and> ending = Some (BlockedPromptException m)
                \<and> r_iterator s1 = Some \<lparr>pending = map Inr ms, pulled = pulled it + 1\<rparr>)"
proof -
  define s0 where "s0 = init False (Some \<lparr>pending = map Inr ms @ [], pulled = pulled it + 1\<rparr>) m [m]"
  have built: "from_iterator it = Inr s0"
    unfolding s0_def using assms(1) by (intro from_iterator_Inr) simp
  show ?thesis
  proof (cases "block_reason (chunk_prompt_feedback m) = 0")
    case True
    with assms(2) have acc: "accumulate m ms = Inr r" by simp
    define s1 where "s1 = \<lparr>r_done = True,
        r_iterator = Some \<lparr>pending = [], pulled = pulled it + 1 + length ms + 1\<rparr>,
        r_result = r, r_chunks = m # ms, r_error = None\<rparr>"
    have pass1: "iter s0 = (map from_response (m # ms), None, s1)"
      unfolding s0_def s1_def
      using iter_first_pass [OF True acc, of "[]" "pulled it + 1" StopIteration
          "\<lparr>pending = [], pulled = pulled it + 1 + length ms + 1\<rparr>"]
      by (simp add: next_item_def)
    have pass2: "iter s1 = (map from_response (m # ms), None, s1)"
      using iter_done [of s1] by (simp add: s1_def)
    have "r_result s1 = r"
      and "r_iterator s1 = Some \<lparr>pending = [], pulled = pulled it + length (m # ms) + 1\<rparr>"
      by (simp_all add: s1_def)
    with built pass1 pass2 True show ?thesis
      by (intro exI [of _ s0] exI [of _ s1] exI [of _ "map from_response (m # ms)"]
          exI [of _ None]) simp
  next
    case False
    let ?e = "BlockedPromptException m"
    have err: "r_error s0 = Some ?e" and nd: "\<not> r_done s0" and ch: "r_chunks s0 \<noteq> []"
      and its: "r_iterator s0 = Some \<lparr>pending = map Inr ms, pulled = pulled it + 1\<rparr>"
      using False by (simp_all add: s0_def init_def)
    have "iter s0 = iter_loop 0 s0" using nd ch by (rule iter_not_done)
    with err have pass: "iter s0 = ([], Some ?e, s0)" by (simp add: iter_loop_raise)
    with built its False show ?thesis
      by (intro exI [of _ s0] exI [of _ s0] exI [of _ "[]"] exI [of _ "Some ?e"]) simp
  qed
qed

theorem iter_twice_witness:
  "\<exists>s0 s1. from_iterator
       \<lparr>pending = [Inr (text_chunk ''model'' ''Hello, ''), Inr (text_chunk ''model'' ''world!'')],
        pulled = 0\<rparr> = Inr s0
     \<and> iter s0 = ([from_response (text_chunk ''model'' ''Hello, ''),
                    from_response (text_chunk ''model'' ''world!'')], None, s1)
     \<and> iter s1 = ([from_response (text_chunk ''model'' ''Hello, ''),
                    from_response (text_chunk ''model'' ''world!'')], None, s1)
     \<and> r_iterator s1 = Some \<lparr>pending = [], pulled = 3\<rparr>
     \<and> r_result s1 = text_chunk ''model'' ''Hello, world!''"
proof -
  have acc: "accumulate (text_chunk ''model'' ''Hello, '') [text_chunk ''model'' ''world!'']
      = Inr (text_chunk ''model'' ''Hello, world!'')"
    by (simp add: text_chunk_def join_chunks_def join_candidate_lists_def group_by_index_def
        join_candidates_def join_contents_def join_safety_ratings_lists_def ratings_of_def
        blocked_of_def join_citation_metadatas_def join_prompt_feedbacks_def)
  have nb: "block_reason (chunk_prompt_feedback (text_chunk ''model'' ''Hello, '')) = 0"
    by (rule text_chunk_not_blocked)
  from iter_twice
    [of "\<lparr>pending = [Inr (text_chunk ''model'' ''Hello, ''), Inr (text_chunk ''model'' ''world!'')],
          pulled = 0\<rparr>"
        "text_chunk ''model'' ''Hello, ''" "[text_chunk ''model'' ''world!'']"
        "text_chunk ''model'' ''Hello, world!''"] acc nb
  obtain s0 s1 items ending where
    "from_iterator
       \<lparr>pending = [Inr (text_chunk ''model'' ''Hello, ''), Inr (text_chunk ''model'' ''world!'')],
        pulled = 0\<rparr> = Inr s0"
    and "iter s0 = (items, ending, s1)" and "iter s1 = (items, ending, s1)"
    and "items = [from_response (text_chunk ''model'' ''Hello, ''),
                  from_response (text_chunk ''model'' ''world!'')]"
    and "ending = None" and "r_result s1 = text_chunk ''model'' ''Hello, world!''"
    and "r_iterator s1 = Some \<lparr>pending = [], pulled = 3\<rparr>"
    by auto
  then show ?thesis
    by (intro exI [of _ s0] exI [of _ s1]) simp
qed

subsection \<open>The result of the iteration and the merge of all messages\<close>

text \<open>
  C1, as the claim states it, fails for a sequence of one message: the iteration merges
  nothing, its result is the message itself, and \<^verbatim>\<open>_join_chunks\<close> of that one message
  is another message when the message is not merged within itself. Here its candidate
  has two text parts, which \<^verbatim>\<open>_join_chunks\<close> makes one.
\<close>

theorem result_of_one_message_not_joined:
  "from_iterator
     \<lparr>pending = [Inr (parts_chunk ''model'' [TextPart ''Hello, '', TextPart ''world!''])],
      pulled = 0\<rparr>
     = Inr (init False (Some \<lparr>pending = [], pulled = 1\<rparr>)
              (parts_chunk ''model'' [TextPart ''Hello, '', TextPart ''world!''])
              [parts_chunk ''model'' [TextPart ''Hello, '', TextPart ''world!'']])
   \<and> resolve (init False (Some \<lparr>pending = [], pulled = 1\<rparr>)
              (parts_chunk ''model'' [TextPart ''Hello, '', TextPart ''world!''])
              [parts_chunk ''model'' [TextPart ''Hello, '', TextPart ''world!'']])
     = (None,
        \<lparr>r_done = True, r_iterator = Some \<lparr>pending = [], pulled = 2\<rparr>,
         r_result = parts_chunk ''model'' [TextPart ''Hello, '', TextPart ''world!''],
         r_chunks = [parts_chunk ''model'' [TextPart ''Hello, '', TextPart ''world!'']],
         r_error = None\<rparr>)
   \<and> join_chunks [parts_chunk ''model'' [TextPart ''Hello, '', TextPart ''world!'']]
     = Inr (parts_chunk ''model'' [TextPart ''Hello, world!''])
   \<and> parts_chunk ''model'' [TextPart ''Hello, world!'']
     \<noteq> parts_chunk ''model'' [TextPart ''Hello, '', TextPart ''world!'']"
  (is "from_iterator ?it = Inr ?s0 \<and> resolve ?s0 = (None, ?s1) \<and> join_chunks [?m] = Inr ?j
       \<and> ?j \<noteq> ?m")
proof -
  have nb: "block_reason (chunk_prompt_feedback ?m) = 0"
    by (simp add: parts_chunk_def)
  have built: "from_iterator ?it = Inr ?s0"
    using from_iterator_Inr [of ?it ?m "[]"] by simp
  have "iter ?s0 = ([from_response ?m], None, ?s1)"
    using iter_first_pass [OF nb, of "[]" ?m "[]" 1 StopIteration "\<lparr>pending = [], pulled = 2\<rparr>"]
    by (simp add: next_item_def)
  then have res: "resolve ?s0 = (None, ?s1)"
    by (simp add: resolve_def init_def)
  have joined: "join_chunks [?m] = Inr ?j"
    by (simp add: parts_chunk_def join_chunks_def join_candidate_lists_def group_by_index_def
        join_candidates_def join_contents_def join_safety_ratings_lists_def ratings_of_def
        blocked_of_def join_citation_metadatas_def join_prompt_feedbacks_def)
  have "?j \<noteq> ?m" by (simp add: parts_chunk_def)
  with built res joined show ?thesis by blast
qed

text \<open>
  C1, amended: let a response be built from a producer that gives the messages
  \<open>m # ms\<close> and then is exhausted; its result starts as \<open>m\<close>. When there are two or
  more messages and the iteration over the response completes without raising, the result
  it holds, which the iteration built by the left fold \<^verbatim>\<open>result = m1\<close>,
  \<^verbatim>\<open>result = _join_chunks([result, m_i])\<close> at each pull, is equal to \<^verbatim>\<open>_join_chunks\<close>
  applied once to the whole sequence in arrival order, which does not raise either. When
  there is a single message, the result after the iteration is that message itself, with no
  merge applied, however the iteration ends.
\<close>

theorem result_is_join_chunks_of_all:
  assumes "pending it = map Inr (m # ms)"
    and "from_iterator it = Inr s0" and "resolve s0 = (ending, s1)"
  shows "r_result s0 = m
         \<and> (ms = [] \<longrightarrow> r_result s1 = m)
         \<and> (ms \<noteq> [] \<and> ending = None \<longrightarrow>
               accumulate m ms = Inr (r_result s1)
               \<and> join_chunks (m # ms) = Inr (r_result s1))"
proof -
  define t0 where "t0 = init False (Some \<lparr>pending = map Inr ms @ [], pulled = pulled it + 1\<rparr>) m [m]"
  have "from_iterator it = Inr t0"
    unfolding t0_def using assms(1) by (intro from_iterator_Inr) simp
  with assms(2) have s0: "s0 = t0" by simp
  have nd: "\<not> r_done t0" and ch: "r_chunks t0 \<noteq> []" and len: "length (r_chunks t0) = Suc 0"
    and res: "r_result t0 = m"
    and its: "r_iterator t0 = Some \<lparr>pending = map Inr ms @ [], pulled = pulled it + 1\<rparr>"
    by (simp_all add: t0_def init_def)
  have loop: "iter t0 = iter_loop 0 t0" using nd ch by (rule iter_not_done)
  from assms(3) have ending: "fst (snd (iter t0)) = ending" and left: "snd (snd (iter t0)) = s1"
    by (simp_all add: resolve_def s0 nd split: prod.splits)
  have blocked: "iter t0 = ([], Some (BlockedPromptException m), t0)"
    if "block_reason (chunk_prompt_feedback m) \<noteq> 0"
  proof -
    from that have "r_error t0 = Some (BlockedPromptException m)" by (simp add: t0_def init_def)
    then show ?thesis by (simp add: loop iter_loop_raise)
  qed
  have pass: "iter t0 = (map from_response (m # ms), None,
      \<lparr>r_done = True,
       r_iterator = Some \<lparr>pending = [], pulled = pulled it + 1 + length ms + 1\<rparr>,
       r_result = r, r_chunks = m # ms, r_error = None\<rparr>)"
    if "block_reason (chunk_prompt_feedback m) = 0" and "accumulate m ms = Inr r" for r
    unfolding t0_def
    using iter_first_pass [OF that, of "[]" "pulled it + 1" StopIteration
        "\<lparr>pending = [], pulled = pulled it + 1 + length ms + 1\<rparr>"]
    by (simp add: next_item_def)
  have one: "r_result s1 = m" if "ms = []"
  proof (cases "block_reason (chunk_prompt_feedback m) = 0")
    case True
    have "accumulate m ms = Inr m" using that by simp
    from pass [OF True this] left show ?thesis by auto
  next
    case False
    from blocked [OF this] left have "s1 = t0" by simp
    with res show ?thesis by simp
  qed
  have many: "accumulate m ms = Inr (r_result s1) \<and> join_chunks (m # ms) = Inr (r_result s1)"
    if ne: "ms \<noteq> []" and none: "ending = None"
  proof -
    have nb: "block_reason (chunk_prompt_feedback m) = 0"
    proof (rule ccontr)
      assume "block_reason (chunk_prompt_feedback m) \<noteq> 0"
      from blocked [OF this] ending none show False by simp
    qed
    then have err: "r_error t0 = None" by (simp add: t0_def init_def)
    have "\<exists>r. accumulate m ms = Inr r"
    proof (cases "accumulate m ms")
      case (Inl e)
      then have "accumulate (r_result t0) ms = Inl e" by (simp only: res)
      from iter_loop_merge_fails [OF err nd len its this]
      obtain items s' where "iter_loop 0 t0 = (items, Some e, s')" by blast
      with ending none loop show ?thesis by simp
    next
      case (Inr r)
      then show ?thesis by blast
    qed
    then obtain r where acc: "accumulate m ms = Inr r" ..
    from pass [OF nb acc] left have r: "r_result s1 = r" by auto
    from ne obtain m' ms' where ms: "ms = m' # ms'" by (cases ms) auto
    from acc have "join_chunks (m # ms) = Inr r"
      unfolding ms by (rule accumulate_is_join_chunks)
    with acc r show ?thesis by simp
  qed
  from res s0 one many show ?thesis by simp
qed

theorem result_is_join_chunks_of_all_witness:
  "join_chunks [text_chunk ''model'' ''Hello, '', text_chunk ''model'' ''world!'']
     = Inr (text_chunk ''model'' ''Hello, world!'')"
proof -
  let ?m1 = "text_chunk ''model'' ''Hello, ''" and ?m2 = "text_chunk ''model'' ''world!''"
  let ?it = "\<lparr>pending = [Inr ?m1, Inr ?m2], pulled = 0\<rparr>"
  let ?s0 = "init False (Some \<lparr>pending = [Inr ?m2], pulled = 1\<rparr>) ?m1 [?m1]"
  let ?s1 = "\<lparr>r_done = True, r_iterator = Some \<lparr>pending = [], pulled = 3\<rparr>,
       r_result = text_chunk ''model'' ''Hello, world!'', r_chunks = [?m1, ?m2], r_error = None\<rparr>"
  have acc: "accumulate ?m1 [?m2] = Inr (text_chunk ''model'' ''Hello, world!'')"
    by (simp add: text_chunk_def join_chunks_def join_candidate_lists_def group_by_index_def
        join_candidates_def join_contents_def join_safety_ratings_lists_def ratings_of_def
        blocked_of_def join_citation_metadatas_def join_prompt_feedbacks_def)
  have built: "from_iterator ?it = Inr ?s0"
    using from_iterator_Inr [of ?it ?m1 "[Inr ?m2]"] by simp
  have "iter ?s0 = ([from_response ?m1, from_response ?m2], None, ?s1)"
    using iter_first_pass [OF text_chunk_not_blocked acc, of "[]" 1 StopIteration
        "\<lparr>pending = [], pulled = 3\<rparr>"]
    by (simp add: next_item_def)
  then have res: "resolve ?s0 = (None, ?s1)"
    by (simp add: resolve_def init_def)
  from result_is_join_chunks_of_all [of ?it ?m1 "[?m2]" ?s0 None ?s1, OF _ built res]
  show ?thesis by simp
qed

end
